theory Spec2Isabelle
  imports Complex_Main "HOL-Library.Word" "HOL-Library.Sublist"
begin

unbundle bit_operations_syntax

section \<open>The page scripts of the Freshflow Foods site\<close>

text \<open>
  The development embeds the event handlers of \<^verbatim>\<open>js/main.js\<close> (the original script) and of
  the optimized script (version 2.0.0). Handlers become functions from the part of the page
  they read and write to the page they leave behind. Where the two scripts spell the same
  handler differently, both spellings are embedded; the optimized one carries the suffix
  \<open>_opt\<close> unless it has a name of its own in the source.
\<close>

subsection \<open>DOM token lists\<close>

text \<open>
  \<^verbatim>\<open>element.classList\<close> is a set of class names. \<^verbatim>\<open>add\<close> and \<^verbatim>\<open>remove\<close> are idempotent,
  \<^verbatim>\<open>toggle(name)\<close> flips membership and \<^verbatim>\<open>toggle(name, force)\<close> sets it to \<open>force\<close>.
\<close>

type_synonym classList = "string set"

definition classList_add :: "string \<Rightarrow> classList \<Rightarrow> classList" where
  "classList_add c cl = insert c cl"

definition classList_remove :: "string \<Rightarrow> classList \<Rightarrow> classList" where
  "classList_remove c cl = cl - {c}"

definition classList_toggle :: "string \<Rightarrow> classList \<Rightarrow> classList" where
  "classList_toggle c cl = (if c \<in> cl then classList_remove c cl else classList_add c cl)"

definition classList_toggle_force :: "string \<Rightarrow> bool \<Rightarrow> classList \<Rightarrow> classList" where
  "classList_toggle_force c force cl = (if force then classList_add c cl else classList_remove c cl)"

definition classList_contains :: "string \<Rightarrow> classList \<Rightarrow> bool" where
  "classList_contains c cl = (c \<in> cl)"

subsection \<open>Header scroll state\<close>

text \<open>
  \<^verbatim>\<open>checkHeaderScroll\<close> of main.js, on the class list of \<^verbatim>\<open>#header\<close>; the first argument is
  \<^verbatim>\<open>window.scrollY\<close>, a number of CSS pixels that need not be whole.
\<close>

definition checkHeaderScroll :: "real \<Rightarrow> classList \<Rightarrow> classList" where
  "checkHeaderScroll scrollY header =
     (if scrollY > 50 then classList_add ''scrolled'' header
      else classList_remove ''scrolled'' header)"

text \<open>\<^verbatim>\<open>checkScroll\<close> inside \<^verbatim>\<open>initHeader\<close> of the optimized script.\<close>

definition checkScroll :: "real \<Rightarrow> classList \<Rightarrow> classList" where
  "checkScroll scrollY header = classList_toggle_force ''scrolled'' (scrollY > 50) header"

subsection \<open>Dropdown menus\<close>

text \<open>
  The page's \<^verbatim>\<open>.dropdown\<close> elements, in document order, each given by its class list. The
  click listener of the toggle of dropdown number \<open>i\<close> returns whether it called
  \<^verbatim>\<open>e.preventDefault()\<close> and the class lists it leaves. Both scripts have the same listener
  body: toggle \<^verbatim>\<open>active\<close> on the own dropdown, then remove it from every other one.
\<close>

definition close_others :: "nat \<Rightarrow> classList list \<Rightarrow> classList list" where
  "close_others i dropdowns =
     map (\<lambda>(j, other). if j \<noteq> i then classList_remove ''active'' other else other)
       (enumerate 0 dropdowns)"

definition dropdown_click :: "int \<Rightarrow> nat \<Rightarrow> classList list \<Rightarrow> bool \<times> classList list" where
  "dropdown_click innerWidth i dropdowns =
     (if innerWidth \<le> 991
      then (True, close_others i (dropdowns[i := classList_toggle ''active'' (dropdowns ! i)]))
      else (False, dropdowns))"

text \<open>A sequence of toggle clicks, each with the viewport width at the time of the click.\<close>

fun dropdown_clicks :: "(int \<times> nat) list \<Rightarrow> classList list \<Rightarrow> classList list" where
  "dropdown_clicks [] dropdowns = dropdowns"
| "dropdown_clicks ((w, i) # rest) dropdowns = dropdown_clicks rest (snd (dropdown_click w i dropdowns))"

definition is_open :: "classList \<Rightarrow> bool" where
  "is_open dropdown = classList_contains ''active'' dropdown"

definition open_dropdowns :: "classList list \<Rightarrow> nat list" where
  "open_dropdowns dropdowns = filter (\<lambda>j. is_open (dropdowns ! j)) [0..<length dropdowns]"


subsection \<open>JavaScript strings\<close>

text \<open>
  A JavaScript string is a sequence of UTF-16 code units; \<^verbatim>\<open>.length\<close> counts code units. An
  ASCII literal of the source is written \<open>js ''...''\<close>.
\<close>

type_synonym code_unit = "16 word"
type_synonym jsstring = "code_unit list"

definition ch :: "char \<Rightarrow> code_unit" where
  "ch c = of_char c"

definition js :: "string \<Rightarrow> jsstring" where
  "js s = map ch s"

text \<open>
  The code units that \<^verbatim>\<open>String.prototype.trim\<close> strips and that \<^verbatim>\<open>\s\<close> matches in a regular
  expression: ECMAScript's WhiteSpace and LineTerminator.
\<close>

definition isWhiteSpace :: "code_unit \<Rightarrow> bool" where
  "isWhiteSpace c =
     ((0x0009 \<le> c \<and> c \<le> 0x000D) \<or> c = 0x0020 \<or> c = 0x00A0 \<or> c = 0x1680
      \<or> (0x2000 \<le> c \<and> c \<le> 0x200A) \<or> c = 0x2028 \<or> c = 0x2029 \<or> c = 0x202F
      \<or> c = 0x205F \<or> c = 0x3000 \<or> c = 0xFEFF)"

definition trim :: "jsstring \<Rightarrow> jsstring" where
  "trim s = rev (dropWhile isWhiteSpace (rev (dropWhile isWhiteSpace s)))"

text \<open>\<^verbatim>\<open>a || b\<close> on strings: the empty string is falsy.\<close>

definition js_or :: "jsstring \<Rightarrow> jsstring \<Rightarrow> jsstring" where
  "js_or a b = (if a = [] then b else a)"

subsection \<open>Regular expressions\<close>

text \<open>
  The fragment of regular expressions the scripts use: character classes, concatenation and
  \<^verbatim>\<open>+\<close>. \<^verbatim>\<open>RegExp.prototype.test\<close> on a pattern anchored by \<^verbatim>\<open>^\<close> and \<^verbatim>\<open>$\<close> (no flags) decides
  whether the whole string matches; it is computed here by taking the residual of the
  expression after each code unit.
\<close>

datatype regex =
    Nothing
  | EmptyStr
  | CharClass "code_unit \<Rightarrow> bool"
  | Concat regex regex
  | Union regex regex
  | Repeat regex

definition OneOrMore :: "regex \<Rightarrow> regex" where
  "OneOrMore r = Concat r (Repeat r)"

fun nullable :: "regex \<Rightarrow> bool" where
  "nullable Nothing = False"
| "nullable EmptyStr = True"
| "nullable (CharClass p) = False"
| "nullable (Concat r s) = (nullable r \<and> nullable s)"
| "nullable (Union r s) = (nullable r \<or> nullable s)"
| "nullable (Repeat r) = True"

fun residual :: "code_unit \<Rightarrow> regex \<Rightarrow> regex" where
  "residual c Nothing = Nothing"
| "residual c EmptyStr = Nothing"
| "residual c (CharClass p) = (if p c then EmptyStr else Nothing)"
| "residual c (Concat r s) =
     (if nullable r then Union (Concat (residual c r) s) (residual c s)
      else Concat (residual c r) s)"
| "residual c (Union r s) = Union (residual c r) (residual c s)"
| "residual c (Repeat r) = Concat (residual c r) (Repeat r)"

fun regex_test :: "regex \<Rightarrow> jsstring \<Rightarrow> bool" where
  "regex_test r [] = nullable r"
| "regex_test r (c # cs) = regex_test (residual c r) cs"

text \<open>The class \<^verbatim>\<open>[^\s@]\<close>.\<close>

definition notSpaceAt :: "code_unit \<Rightarrow> bool" where
  "notSpaceAt c = (\<not> (isWhiteSpace c \<or> c = ch CHR ''@''))"

text \<open>\<^verbatim>\<open>/^[^\s@]+@[^\s@]+\.[^\s@]+$/\<close>, the pattern of \<^verbatim>\<open>isValidEmail\<close> in both scripts.\<close>

definition emailRegex :: regex where
  "emailRegex =
     Concat (OneOrMore (CharClass notSpaceAt))
       (Concat (CharClass (\<lambda>c. c = ch CHR ''@''))
         (Concat (OneOrMore (CharClass notSpaceAt))
           (Concat (CharClass (\<lambda>c. c = ch CHR ''.''))
             (OneOrMore (CharClass notSpaceAt)))))"

definition isValidEmail :: "jsstring \<Rightarrow> bool" where
  "isValidEmail email = regex_test emailRegex email"


subsection \<open>Contact form: field validation\<close>

text \<open>
  An input or textarea of the form: its current value, the default value that
  \<^verbatim>\<open>form.reset()\<close> restores (the markup's \<^verbatim>\<open>value\<close> attribute or text content), and its
  class list. An error message element is given by its \<^verbatim>\<open>textContent\<close>; \<open>None\<close> stands
  for an element that \<^verbatim>\<open>getElementById\<close> does not find.
\<close>

datatype js_error = TypeError | URIError

record input_el =
  inp_value :: jsstring
  inp_default :: jsstring
  inp_classes :: classList

definition showError :: "input_el \<Rightarrow> jsstring option \<Rightarrow> jsstring \<Rightarrow> input_el \<times> jsstring option" where
  "showError input errorEl message =
     (input\<lparr>inp_classes := classList_add ''error'' (inp_classes input)\<rparr>,
      (case errorEl of None \<Rightarrow> None | Some textContent \<Rightarrow> Some message))"

definition clearError :: "input_el \<Rightarrow> jsstring option \<Rightarrow> input_el \<times> jsstring option" where
  "clearError input errorEl =
     (input\<lparr>inp_classes := classList_remove ''error'' (inp_classes input)\<rparr>,
      (case errorEl of None \<Rightarrow> None | Some textContent \<Rightarrow> Some []))"

text \<open>\<^verbatim>\<open>validateField\<close> of main.js. It returns its verdict together with the input and the error
  element as it leaves them.\<close>

definition validateField :: "input_el \<Rightarrow> jsstring option \<Rightarrow> string \<Rightarrow> bool \<times> input_el \<times> jsstring option" where
  "validateField input errorEl type =
     (let v = trim (inp_value input);
          (input1, errorEl1) = clearError input errorEl
      in if v = [] then (False, showError input1 errorEl1 (js ''This field is required.''))
         else if type = ''email'' then
           (if \<not> isValidEmail v
            then (False, showError input1 errorEl1 (js ''Please enter a valid email address.''))
            else (True, input1, errorEl1))
         else if type = ''name'' then
           (if length v < 2
            then (False, showError input1 errorEl1 (js ''Name must be at least 2 characters.''))
            else (True, input1, errorEl1))
         else if type = ''message'' then
           (if length v < 10
            then (False, showError input1 errorEl1 (js ''Message must be at least 10 characters.''))
            else (True, input1, errorEl1))
         else (True, input1, errorEl1))"

text \<open>\<^verbatim>\<open>validateField\<close> of the optimized script: a chain of guarded returns instead of the switch.\<close>

definition validateField_opt :: "input_el \<Rightarrow> jsstring option \<Rightarrow> string \<Rightarrow> bool \<times> input_el \<times> jsstring option" where
  "validateField_opt input errorEl type =
     (let v = trim (inp_value input);
          (input1, errorEl1) = clearError input errorEl
      in if v = [] then (False, showError input1 errorEl1 (js ''This field is required.''))
         else if type = ''email'' \<and> \<not> isValidEmail v
           then (False, showError input1 errorEl1 (js ''Please enter a valid email address.''))
         else if type = ''name'' \<and> length v < 2
           then (False, showError input1 errorEl1 (js ''Name must be at least 2 characters.''))
         else if type = ''message'' \<and> length v < 10
           then (False, showError input1 errorEl1 (js ''Message must be at least 10 characters.''))
         else (True, input1, errorEl1))"

subsection \<open>URI component encoding\<close>

text \<open>
  \<^verbatim>\<open>encodeURIComponent\<close> is ECMAScript's \<^verbatim>\<open>Encode\<close> with the unreserved set
  \<^verbatim>\<open>A-Z a-z 0-9 - _ . ! ~ * ' ( )\<close>: an unreserved code unit is copied, any other code point is
  written as the percent-escaped octets of its UTF-8 encoding, and a surrogate without its
  partner raises \<^verbatim>\<open>URIError\<close>.
\<close>

definition isUnreserved :: "code_unit \<Rightarrow> bool" where
  "isUnreserved c =
     ((0x41 \<le> c \<and> c \<le> 0x5A) \<or> (0x61 \<le> c \<and> c \<le> 0x7A) \<or> (0x30 \<le> c \<and> c \<le> 0x39)
      \<or> c \<in> set (js ''-_.!~*()'') \<or> c = 0x27)"

definition isLeadSurrogate :: "code_unit \<Rightarrow> bool" where
  "isLeadSurrogate c = (0xD800 \<le> c \<and> c \<le> 0xDBFF)"

definition isTrailSurrogate :: "code_unit \<Rightarrow> bool" where
  "isTrailSurrogate c = (0xDC00 \<le> c \<and> c \<le> 0xDFFF)"

definition codePoint :: "code_unit \<Rightarrow> code_unit \<Rightarrow> nat" where
  "codePoint lead trail = 0x10000 + (unat lead - 0xD800) * 0x400 + (unat trail - 0xDC00)"

definition utf8 :: "nat \<Rightarrow> nat list" where
  "utf8 cp =
     (if cp < 0x80 then [cp]
      else if cp < 0x800 then [0xC0 + cp div 0x40, 0x80 + cp mod 0x40]
      else if cp < 0x10000 then [0xE0 + cp div 0x1000, 0x80 + cp div 0x40 mod 0x40, 0x80 + cp mod 0x40]
      else [0xF0 + cp div 0x40000, 0x80 + cp div 0x1000 mod 0x40, 0x80 + cp div 0x40 mod 0x40,
            0x80 + cp mod 0x40])"

definition hexDigit :: "nat \<Rightarrow> code_unit" where
  "hexDigit d = js ''0123456789ABCDEF'' ! (d mod 16)"

definition percent :: "nat \<Rightarrow> jsstring" where
  "percent octet = [ch CHR ''%'', hexDigit (octet div 16), hexDigit (octet mod 16)]"

definition escape :: "nat \<Rightarrow> jsstring" where
  "escape cp = concat (map percent (utf8 cp))"

definition prepend :: "jsstring \<Rightarrow> js_error + jsstring \<Rightarrow> js_error + jsstring" where
  "prepend s r = (case r of Inl err \<Rightarrow> Inl err | Inr t \<Rightarrow> Inr (s @ t))"

fun Encode :: "jsstring \<Rightarrow> js_error + jsstring" where
  "Encode [] = Inr []"
| "Encode (c # cs) =
     (if isUnreserved c then prepend [c] (Encode cs)
      else if isTrailSurrogate c then Inl URIError
      else if isLeadSurrogate c then
        (case cs of
           [] \<Rightarrow> Inl URIError
         | d # ds \<Rightarrow>
             if isTrailSurrogate d then prepend (escape (codePoint c d)) (Encode ds)
             else Inl URIError)
      else prepend (escape (unat c)) (Encode cs))"

definition encodeURIComponent :: "jsstring \<Rightarrow> js_error + jsstring" where
  "encodeURIComponent uriComponent = Encode uriComponent"

text \<open>
  \<^verbatim>\<open>decodeURIComponent\<close> is ECMAScript's \<^verbatim>\<open>Decode\<close> with an empty reserved set: a code unit
  other than \<^verbatim>\<open>%\<close> is copied; an escape sequence must spell the UTF-8 encoding of one code
  point, which is appended in UTF-16, and anything else raises \<^verbatim>\<open>URIError\<close>.
\<close>

definition hexValue :: "code_unit \<Rightarrow> nat option" where
  "hexValue c =
     (if 0x30 \<le> c \<and> c \<le> 0x39 then Some (unat c - 0x30)
      else if 0x41 \<le> c \<and> c \<le> 0x46 then Some (unat c - 0x41 + 10)
      else if 0x61 \<le> c \<and> c \<le> 0x66 then Some (unat c - 0x61 + 10)
      else None)"

fun escape_octet :: "jsstring \<Rightarrow> (nat \<times> jsstring) option" where
  "escape_octet (p # h # l # rest) =
     (if p = ch CHR ''%'' then
        (case hexValue h of
           None \<Rightarrow> None
         | Some a \<Rightarrow> (case hexValue l of None \<Rightarrow> None | Some b \<Rightarrow> Some (16 * a + b, rest)))
      else None)"
| "escape_octet s = None"

fun continuation :: "nat \<Rightarrow> jsstring \<Rightarrow> (nat list \<times> jsstring) option" where
  "continuation 0 s = Some ([], s)"
| "continuation (Suc n) s =
     (case escape_octet s of
        None \<Rightarrow> None
      | Some (b, rest) \<Rightarrow>
          (case continuation n rest of None \<Rightarrow> None | Some (bs, rest') \<Rightarrow> Some (b # bs, rest')))"

definition isContinuation :: "nat \<Rightarrow> bool" where
  "isContinuation b = (0x80 \<le> b \<and> b < 0xC0)"

definition isScalar :: "nat \<Rightarrow> bool" where
  "isScalar cp = (cp < 0xD800 \<or> (0xE000 \<le> cp \<and> cp \<le> 0x10FFFF))"

fun utf8_decode :: "nat list \<Rightarrow> nat option" where
  "utf8_decode [b0, b1] =
     (let cp = (b0 - 0xC0) * 0x40 + (b1 - 0x80)
      in if isContinuation b1 \<and> 0x80 \<le> cp then Some cp else None)"
| "utf8_decode [b0, b1, b2] =
     (let cp = (b0 - 0xE0) * 0x1000 + (b1 - 0x80) * 0x40 + (b2 - 0x80)
      in if isContinuation b1 \<and> isContinuation b2 \<and> 0x800 \<le> cp \<and> isScalar cp then Some cp else None)"
| "utf8_decode [b0, b1, b2, b3] =
     (let cp = (b0 - 0xF0) * 0x40000 + (b1 - 0x80) * 0x1000 + (b2 - 0x80) * 0x40 + (b3 - 0x80)
      in if isContinuation b1 \<and> isContinuation b2 \<and> isContinuation b3 \<and> 0x10000 \<le> cp \<and> isScalar cp
         then Some cp else None)"
| "utf8_decode bs = None"

definition leadingOnes :: "nat \<Rightarrow> nat" where
  "leadingOnes b =
     (if b < 0x80 then 0 else if b < 0xC0 then 1 else if b < 0xE0 then 2 else if b < 0xF0 then 3
      else if b < 0xF8 then 4 else 5)"

definition utf16 :: "nat \<Rightarrow> jsstring" where
  "utf16 cp =
     (if cp < 0x10000 then [of_nat cp]
      else [of_nat (0xD800 + (cp - 0x10000) div 0x400), of_nat (0xDC00 + (cp - 0x10000) mod 0x400)])"

text \<open>Reading an escape consumes input; this is what makes \<open>Decode\<close> terminate.\<close>

lemma escape_octet_length: "escape_octet s = Some (b, rest) \<Longrightarrow> length rest < length s"
  by (induction s rule: escape_octet.induct) (auto split: if_splits option.splits)

lemma continuation_length: "continuation n s = Some (bs, rest) \<Longrightarrow> length rest \<le> length s"
proof (induction n arbitrary: s bs rest)
  case 0
  then show ?case by simp
next
  case (Suc n)
  then show ?case
    by (fastforce split: option.splits prod.splits dest: escape_octet_length)
qed

function Decode :: "jsstring \<Rightarrow> js_error + jsstring" where
  "Decode [] = Inr []"
| "Decode (c # cs) =
     (if c \<noteq> ch CHR ''%'' then prepend [c] (Decode cs)
      else
        (case escape_octet (c # cs) of
           None \<Rightarrow> Inl URIError
         | Some (b, rest) \<Rightarrow>
             if leadingOnes b = 0 then prepend [of_nat b] (Decode rest)
             else if leadingOnes b = 1 \<or> leadingOnes b > 4 then Inl URIError
             else
               (case continuation (leadingOnes b - 1) rest of
                  None \<Rightarrow> Inl URIError
                | Some (bs, rest') \<Rightarrow>
                    (case utf8_decode (b # bs) of
                       None \<Rightarrow> Inl URIError
                     | Some cp \<Rightarrow> prepend (utf16 cp) (Decode rest')))))"
  by pat_completeness auto
termination
proof (relation "measure length", goal_cases)
  case 1
  show ?case by simp
next
  case (2 c cs)
  then show ?case by simp
next
  case (3 c cs x2 x y)
  then show ?case
    using escape_octet_length [of "c # cs" x y] by simp
next
  case (4 c cs x2 x y x2a xa ya x2b)
  then show ?case
    using escape_octet_length [of "c # cs" x y] continuation_length [of "leadingOnes x - 1" y xa ya]
    by simp
qed

definition decodeURIComponent :: "jsstring \<Rightarrow> js_error + jsstring" where
  "decodeURIComponent encoded = Decode encoded"

text \<open>A string is well formed when every surrogate code unit is part of a lead-trail pair.\<close>

fun wellFormed :: "jsstring \<Rightarrow> bool" where
  "wellFormed [] = True"
| "wellFormed (c # cs) =
     (if isTrailSurrogate c then False
      else if isLeadSurrogate c then
        (case cs of [] \<Rightarrow> False | d # ds \<Rightarrow> isTrailSurrogate d \<and> wellFormed ds)
      else wellFormed cs)"

subsection \<open>Contact form: the page and its listeners\<close>

text \<open>
  The part of the contact page that \<^verbatim>\<open>initContactForm\<close> reads and writes. An element that the
  script looks up and may not find is an \<open>option\<close>. The select \<^verbatim>\<open>#subject\<close> has its options
  (value and label text), its \<^verbatim>\<open>selectedIndex\<close> and the index \<^verbatim>\<open>form.reset()\<close> restores. The
  submit button has the \<^verbatim>\<open>style.display\<close> of its children \<^verbatim>\<open>.btn-text\<close> and \<^verbatim>\<open>.btn-loading\<close>
  (\<open>None\<close> when \<^verbatim>\<open>querySelector\<close> finds none) and its \<^verbatim>\<open>disabled\<close> flag. What the script sends
  out of the page is recorded in the page too: the pending \<^verbatim>\<open>setTimeout\<close> callbacks with their
  delays, the calls of \<^verbatim>\<open>window.open\<close>, the anchors appended to \<^verbatim>\<open>document.body\<close> and the
  console output. The controls are taken to belong to the form \<^verbatim>\<open>#contactForm\<close>.

  A listener that throws leaves the page as it was at the throw; listeners therefore return
  the exception, if any, together with the page.
\<close>

record option_el =
  opt_value :: jsstring
  opt_text :: jsstring

record select_el =
  sel_options :: "option_el list"
  selectedIndex :: int
  sel_default :: int

definition selected_option :: "select_el \<Rightarrow> option_el option" where
  "selected_option s =
     (if 0 \<le> selectedIndex s \<and> selectedIndex s < int (length (sel_options s))
      then Some (sel_options s ! nat (selectedIndex s)) else None)"

definition select_value :: "select_el \<Rightarrow> jsstring" where
  "select_value s = (case selected_option s of None \<Rightarrow> [] | Some opt \<Rightarrow> opt_value opt)"

record button_el =
  btn_text :: "jsstring option"
  btn_loading :: "jsstring option"
  disabled :: bool

record form_data =
  fd_name :: jsstring
  fd_email :: jsstring
  fd_phone :: jsstring
  fd_subject :: jsstring
  fd_message :: jsstring

record anchor_el =
  href :: jsstring
  anchor_display :: jsstring

datatype console_entry = LogFormData form_data | LogUrl jsstring

datatype timer_task = SubmitDone jsstring jsstring form_data | SubmitDone_opt jsstring

datatype script = Original | Optimized

datatype field = Name | Email | Message

record contact_page =
  nameInput :: "input_el option"
  emailInput :: "input_el option"
  messageInput :: "input_el option"
  nameError :: "jsstring option"
  emailError :: "jsstring option"
  messageError :: "jsstring option"
  phoneInput :: "input_el option"
  subjectSelect :: "select_el option"
  submitBtn :: "button_el option"
  contactForm_display :: jsstring
  formSuccess :: "jsstring option"
  timers :: "(nat \<times> timer_task) list"
  opened :: "(jsstring \<times> jsstring) list"
  body_children :: "anchor_el list"
  console :: "console_entry list"

text \<open>The two scripts call their own \<^verbatim>\<open>validateField\<close>.\<close>

definition validate :: "script \<Rightarrow> input_el \<Rightarrow> jsstring option \<Rightarrow> string \<Rightarrow> bool \<times> input_el \<times> jsstring option" where
  "validate script = (case script of Original \<Rightarrow> validateField | Optimized \<Rightarrow> validateField_opt)"

text \<open>The \<^verbatim>\<open>blur\<close> listeners; a listener exists only for an input that exists.\<close>

definition on_blur :: "script \<Rightarrow> field \<Rightarrow> contact_page \<Rightarrow> contact_page" where
  "on_blur script f p =
     (case f of
        Name \<Rightarrow>
          (case nameInput p of
             None \<Rightarrow> p
           | Some input \<Rightarrow>
               (let (valid, input', errorEl') = validate script input (nameError p) ''name''
                in p\<lparr>nameInput := Some input', nameError := errorEl'\<rparr>))
      | Email \<Rightarrow>
          (case emailInput p of
             None \<Rightarrow> p
           | Some input \<Rightarrow>
               (let (valid, input', errorEl') = validate script input (emailError p) ''email''
                in p\<lparr>emailInput := Some input', emailError := errorEl'\<rparr>))
      | Message \<Rightarrow>
          (case messageInput p of
             None \<Rightarrow> p
           | Some input \<Rightarrow>
               (let (valid, input', errorEl') = validate script input (messageError p) ''message''
                in p\<lparr>messageInput := Some input', messageError := errorEl'\<rparr>)))"

text \<open>The \<^verbatim>\<open>input\<close> listeners: \<^verbatim>\<open>this.classList.remove('error')\<close>.\<close>

definition remove_error_class :: "input_el \<Rightarrow> input_el" where
  "remove_error_class input = input\<lparr>inp_classes := classList_remove ''error'' (inp_classes input)\<rparr>"

definition on_input :: "field \<Rightarrow> contact_page \<Rightarrow> contact_page" where
  "on_input f p =
     (case f of
        Name \<Rightarrow> p\<lparr>nameInput := map_option remove_error_class (nameInput p)\<rparr>
      | Email \<Rightarrow> p\<lparr>emailInput := map_option remove_error_class (emailInput p)\<rparr>
      | Message \<Rightarrow> p\<lparr>messageInput := map_option remove_error_class (messageInput p)\<rparr>)"

text \<open>
  The three statements on the submit button before the links are built, and the three that
  undo them in the timer callback. \<^verbatim>\<open>querySelector(...).style\<close> throws on a missing child.
\<close>

definition show_loading :: "button_el \<Rightarrow> js_error option \<times> button_el" where
  "show_loading b =
     (case btn_text b of
        None \<Rightarrow> (Some TypeError, b)
      | Some d \<Rightarrow>
          (let b1 = b\<lparr>btn_text := Some (js ''none'')\<rparr>
           in case btn_loading b1 of
                None \<Rightarrow> (Some TypeError, b1)
              | Some d' \<Rightarrow> (None, b1\<lparr>btn_loading := Some (js ''inline''), disabled := True\<rparr>)))"

definition hide_loading :: "button_el \<Rightarrow> js_error option \<times> button_el" where
  "hide_loading b =
     (case btn_text b of
        None \<Rightarrow> (Some TypeError, b)
      | Some d \<Rightarrow>
          (let b1 = b\<lparr>btn_text := Some (js ''inline'')\<rparr>
           in case btn_loading b1 of
                None \<Rightarrow> (Some TypeError, b1)
              | Some d' \<Rightarrow> (None, b1\<lparr>btn_loading := Some (js ''none''), disabled := False\<rparr>)))"

definition on_button :: "(button_el \<Rightarrow> js_error option \<times> button_el) \<Rightarrow> contact_page \<Rightarrow> js_error option \<times> contact_page" where
  "on_button f p =
     (case submitBtn p of
        None \<Rightarrow> (None, p)
      | Some b \<Rightarrow> (let (err, b') = f b in (err, p\<lparr>submitBtn := Some b'\<rparr>)))"

text \<open>\<^verbatim>\<open>formData\<close>: the trimmed values, with the defaults for phone and subject.\<close>

definition gather :: "input_el \<Rightarrow> input_el \<Rightarrow> input_el \<Rightarrow> contact_page \<Rightarrow> form_data" where
  "gather n e m p =
     \<lparr>fd_name = trim (inp_value n),
      fd_email = trim (inp_value e),
      fd_phone = (case phoneInput p of
                    None \<Rightarrow> js ''Not provided''
                  | Some ph \<Rightarrow> js_or (trim (inp_value ph)) (js ''Not provided'')),
      fd_subject = (case subjectSelect p of
                      None \<Rightarrow> js ''General Inquiry''
                    | Some s \<Rightarrow> js_or (select_value s) (js ''General Inquiry'')),
      fd_message = trim (inp_value m)\<rparr>"

text \<open>
  \<^verbatim>\<open>subjectSelect ? subjectSelect.options[subjectSelect.selectedIndex].text : 'General Inquiry'\<close>;
  reading \<^verbatim>\<open>.text\<close> of a missing option throws.
\<close>

definition subjectLabel :: "contact_page \<Rightarrow> js_error + jsstring" where
  "subjectLabel p =
     (case subjectSelect p of
        None \<Rightarrow> Inr (js ''General Inquiry'')
      | Some s \<Rightarrow>
          (case selected_option s of
             None \<Rightarrow> Inl TypeError
           | Some opt \<Rightarrow> Inr (opt_text opt)))"

text \<open>
  The template literals. \<open>heading\<close> is the text \<^verbatim>\<open>New Enquiry - Freshflow Foods\<close> with the
  en dash U+2013 that the source has in place of the hyphen.
\<close>

definition heading :: jsstring where
  "heading = js ''New Enquiry '' @ [0x2013] @ js '' Freshflow Foods''"

definition whatsappMessage :: "form_data \<Rightarrow> jsstring \<Rightarrow> js_error + jsstring" where
  "whatsappMessage formData label =
     (case encodeURIComponent (fd_name formData) of Inl x \<Rightarrow> Inl x | Inr name \<Rightarrow>
      case encodeURIComponent (fd_email formData) of Inl x \<Rightarrow> Inl x | Inr email \<Rightarrow>
      case encodeURIComponent (fd_phone formData) of Inl x \<Rightarrow> Inl x | Inr phone \<Rightarrow>
      case encodeURIComponent label of Inl x \<Rightarrow> Inl x | Inr subj \<Rightarrow>
      case encodeURIComponent (fd_message formData) of Inl x \<Rightarrow> Inl x | Inr message \<Rightarrow>
        Inr (js ''*'' @ heading @ js ''*%0A%0A*Name:* '' @ name @ js ''%0A*Email:* '' @ email
             @ js ''%0A*Phone:* '' @ phone @ js ''%0A*Subject:* '' @ subj
             @ js ''%0A%0A*Message:*%0A'' @ message
             @ js ''%0A%0A_Sent from Freshflow Foods website contact form._''))"

definition whatsappUrl :: "jsstring \<Rightarrow> jsstring" where
  "whatsappUrl message = js ''https://wa.me/917794084488?text='' @ message"

definition emailSubject :: "jsstring \<Rightarrow> js_error + jsstring" where
  "emailSubject label = encodeURIComponent (heading @ js '': '' @ label)"

definition emailBody :: "form_data \<Rightarrow> jsstring \<Rightarrow> js_error + jsstring" where
  "emailBody formData label =
     encodeURIComponent
       (heading @ [0x0A, 0x0A] @ js ''Name: '' @ fd_name formData @ [0x0A]
        @ js ''Email: '' @ fd_email formData @ [0x0A]
        @ js ''Phone: '' @ fd_phone formData @ [0x0A]
        @ js ''Subject: '' @ label @ [0x0A, 0x0A]
        @ js ''Message:'' @ [0x0A] @ fd_message formData @ [0x0A, 0x0A]
        @ js ''---'' @ [0x0A] @ js ''Sent from Freshflow Foods website contact form.'')"

definition mailtoUrl :: "jsstring \<Rightarrow> jsstring \<Rightarrow> jsstring" where
  "mailtoUrl subj body = js ''mailto:freshflowfoods@gmail.com?subject='' @ subj @ js ''&body='' @ body"

text \<open>
  What the submit listener computes between showing the loading state and \<^verbatim>\<open>setTimeout\<close>: the
  closure of the timer callback. Only main.js builds the mailto link.
\<close>

definition build_task :: "script \<Rightarrow> form_data \<Rightarrow> contact_page \<Rightarrow> js_error + timer_task" where
  "build_task script formData p =
     (case subjectLabel p of Inl x \<Rightarrow> Inl x | Inr label \<Rightarrow>
      case whatsappMessage formData label of Inl x \<Rightarrow> Inl x | Inr message \<Rightarrow>
      case script of
        Optimized \<Rightarrow> Inr (SubmitDone_opt (whatsappUrl message))
      | Original \<Rightarrow>
          (case emailSubject label of Inl x \<Rightarrow> Inl x | Inr subj \<Rightarrow>
           case emailBody formData label of Inl x \<Rightarrow> Inl x | Inr body \<Rightarrow>
             Inr (SubmitDone (whatsappUrl message) (mailtoUrl subj body) formData)))"

text \<open>
  The submit listener: the branch taken when all three fields are valid, then the listener
  itself, which validates all three fields before it looks at any verdict. Both scripts call
  \<^verbatim>\<open>e.preventDefault()\<close> first, so the browser never submits the form itself; that native
  submission is not part of the page modelled here.
\<close>

definition submit_valid :: "script \<Rightarrow> input_el \<Rightarrow> input_el \<Rightarrow> input_el \<Rightarrow> contact_page \<Rightarrow> js_error option \<times> contact_page" where
  "submit_valid script n e m p =
     (case on_button show_loading p of
        (Some x, p1) \<Rightarrow> (Some x, p1)
      | (None, p1) \<Rightarrow>
          (case build_task script (gather n e m p1) p1 of
             Inl x \<Rightarrow> (Some x, p1)
           | Inr task \<Rightarrow> (None, p1\<lparr>timers := timers p1 @ [(1000, task)]\<rparr>)))"

definition submit :: "script \<Rightarrow> contact_page \<Rightarrow> js_error option \<times> contact_page" where
  "submit script p =
     (case nameInput p of None \<Rightarrow> (Some TypeError, p) | Some n \<Rightarrow>
      let (isNameValid, n', nameError') = validate script n (nameError p) ''name'';
          p1 = p\<lparr>nameInput := Some n', nameError := nameError'\<rparr>
      in
      case emailInput p1 of None \<Rightarrow> (Some TypeError, p1) | Some e \<Rightarrow>
      let (isEmailValid, e', emailError') = validate script e (emailError p1) ''email'';
          p2 = p1\<lparr>emailInput := Some e', emailError := emailError'\<rparr>
      in
      case messageInput p2 of None \<Rightarrow> (Some TypeError, p2) | Some m \<Rightarrow>
      let (isMessageValid, m', messageError') = validate script m (messageError p2) ''message'';
          p3 = p2\<lparr>messageInput := Some m', messageError := messageError'\<rparr>
      in
      if isNameValid \<and> isEmailValid \<and> isMessageValid then submit_valid script n' e' m' p3
      else (None, p3))"

text \<open>The timer callback of each script.\<close>

fun run_task :: "timer_task \<Rightarrow> contact_page \<Rightarrow> js_error option \<times> contact_page" where
  "run_task (SubmitDone url mailto formData) p =
     (let p1 = p\<lparr>opened := opened p @ [(url, js ''_blank'')]\<rparr>;
          p2 = p1\<lparr>body_children := body_children p1 @ [\<lparr>href = mailto, anchor_display = js ''none''\<rparr>]\<rparr>;
          p3 = p2\<lparr>contactForm_display := js ''none'',
                   formSuccess := map_option (\<lambda>d. js ''block'') (formSuccess p2)\<rparr>
      in case on_button hide_loading p3 of
           (Some x, p4) \<Rightarrow> (Some x, p4)
         | (None, p4) \<Rightarrow> (None, p4\<lparr>console := console p4 @ [LogFormData formData, LogUrl url]\<rparr>))"
| "run_task (SubmitDone_opt url) p =
     (let p1 = p\<lparr>opened := opened p @ [(url, js ''_blank'')]\<rparr>;
          p3 = p1\<lparr>contactForm_display := js ''none'',
                   formSuccess := map_option (\<lambda>d. js ''block'') (formSuccess p1)\<rparr>
      in on_button hide_loading p3)"

definition fire_timer :: "contact_page \<Rightarrow> js_error option \<times> contact_page" where
  "fire_timer p =
     (case timers p of
        [] \<Rightarrow> (None, p)
      | (delay, task) # rest \<Rightarrow> run_task task (p\<lparr>timers := rest\<rparr>))"

text \<open>
  The click listener of \<^verbatim>\<open>#resetForm\<close>, the same in both scripts. \<^verbatim>\<open>form.reset()\<close> puts every
  control of the form back to its default.
\<close>

definition reset_input :: "input_el \<Rightarrow> input_el" where
  "reset_input input = input\<lparr>inp_value := inp_default input\<rparr>"

definition form_reset :: "contact_page \<Rightarrow> contact_page" where
  "form_reset p =
     p\<lparr>nameInput := map_option reset_input (nameInput p),
       emailInput := map_option reset_input (emailInput p),
       messageInput := map_option reset_input (messageInput p),
       phoneInput := map_option reset_input (phoneInput p),
       subjectSelect := map_option (\<lambda>s. s\<lparr>selectedIndex := sel_default s\<rparr>) (subjectSelect p)\<rparr>"

definition reset_click :: "contact_page \<Rightarrow> contact_page" where
  "reset_click p =
     (let p1 = form_reset p;
          p2 = p1\<lparr>nameInput := map_option remove_error_class (nameInput p1),
                   emailInput := map_option remove_error_class (emailInput p1),
                   messageInput := map_option remove_error_class (messageInput p1)\<rparr>;
          p3 = p2\<lparr>nameError := map_option (\<lambda>t. []) (nameError p2),
                   emailError := map_option (\<lambda>t. []) (emailError p2),
                   messageError := map_option (\<lambda>t. []) (messageError p2)\<rparr>
      in p3\<lparr>contactForm_display := js ''block'',
             formSuccess := map_option (\<lambda>d. js ''none'') (formSuccess p3)\<rparr>)"


subsection \<open>Contact form: events\<close>

text \<open>
  The events the listeners of the form react to, and the page each leaves (an exception ends
  the listener and the page stays as it was at the throw). \<open>TimerFires\<close> runs the oldest pending
  timer callback.
\<close>

datatype form_event = Blur field | Input field | Submit | ResetClick | TimerFires

definition handle :: "script \<Rightarrow> form_event \<Rightarrow> contact_page \<Rightarrow> contact_page" where
  "handle script ev p =
     (case ev of
        Blur f \<Rightarrow> on_blur script f p
      | Input f \<Rightarrow> on_input f p
      | Submit \<Rightarrow> snd (submit script p)
      | ResetClick \<Rightarrow> reset_click p
      | TimerFires \<Rightarrow> snd (fire_timer p))"

fun handle_all :: "script \<Rightarrow> form_event list \<Rightarrow> contact_page \<Rightarrow> contact_page" where
  "handle_all script [] p = p"
| "handle_all script (ev # evs) p = handle_all script evs (handle script ev p)"

subsection \<open>Deferred initialization\<close>

datatype initializer =
    InitHeader | InitMobileMenu | InitDropdowns
  | InitHeroSwiperDeferred
  | InitSmoothScroll | InitScrollAnimations | InitBreedCardsAnimation | InitContactForm
  | InitActiveNav | InitBackToTop | InitResponsiveHandlers

text \<open>
  The statements of the start-up code: a call of an initializer, and the three ways of
  handing a callback (its body, a list of statements) to the browser.
\<close>

datatype stmt =
    Call initializer
  | RequestAnimationFrame "stmt list"
  | RequestIdleCallback "stmt list" nat
  | SetTimeout "stmt list" nat

text \<open>
  The browser's side: a queued callback waits for the next animation frame, for idle time with
  the \<^verbatim>\<open>timeout\<close> option it was registered with, or for its delay. The event loop records the
  initializers called so far and the callbacks queued. Running a statement list either calls or
  queues; running a queued callback takes it off the queue and runs its body to completion.
\<close>

datatype trigger = NextFrame | WhenIdle nat | AfterDelay nat

record event_loop =
  calls :: "initializer list"
  queue :: "(trigger \<times> stmt list) list"

fun exec_stmt :: "stmt \<Rightarrow> event_loop \<Rightarrow> event_loop" where
  "exec_stmt (Call f) w = w\<lparr>calls := calls w @ [f]\<rparr>"
| "exec_stmt (RequestAnimationFrame callback) w = w\<lparr>queue := queue w @ [(NextFrame, callback)]\<rparr>"
| "exec_stmt (RequestIdleCallback callback timeout) w = w\<lparr>queue := queue w @ [(WhenIdle timeout, callback)]\<rparr>"
| "exec_stmt (SetTimeout callback delay) w = w\<lparr>queue := queue w @ [(AfterDelay delay, callback)]\<rparr>"

fun exec :: "stmt list \<Rightarrow> event_loop \<Rightarrow> event_loop" where
  "exec [] w = w"
| "exec (s # body) w = exec body (exec_stmt s w)"

definition run_callback :: "nat \<Rightarrow> event_loop \<Rightarrow> event_loop" where
  "run_callback i w =
     (if i < length (queue w)
      then exec (snd (queue w ! i)) (w\<lparr>queue := take i (queue w) @ drop (Suc i) (queue w)\<rparr>)
      else w)"

text \<open>
  The browser may run any queued callback next; when it does so is its own business. The
  states of the event loop that can be reached from a start state:
\<close>

inductive reaches :: "event_loop \<Rightarrow> event_loop \<Rightarrow> bool" for start :: event_loop where
  at_start: "reaches start start"
| callback_runs: "reaches start w \<Longrightarrow> i < length (queue w) \<Longrightarrow> reaches start (run_callback i w)"

text \<open>
  \<^verbatim>\<open>deferInit\<close> and \<^verbatim>\<open>initDeferredFeatures\<close> of the optimized script; the argument says whether
  \<^verbatim>\<open>'requestIdleCallback' in window\<close> holds. \<open>nonCritical\<close> is the body of the callback passed
  to \<^verbatim>\<open>deferInit\<close>, \<open>critical\<close> the three initializers the script runs first. \<open>page_ready\<close> is
  the event loop once the document is ready and both start-up blocks have run.
\<close>

definition deferInit :: "bool \<Rightarrow> stmt list \<Rightarrow> stmt list" where
  "deferInit hasRequestIdleCallback callback =
     (if hasRequestIdleCallback then [RequestIdleCallback callback 2000]
      else [SetTimeout callback 100])"

definition nonCritical :: "stmt list" where
  "nonCritical =
     [Call InitSmoothScroll, Call InitScrollAnimations, Call InitBreedCardsAnimation,
      Call InitContactForm, Call InitActiveNav, Call InitBackToTop, Call InitResponsiveHandlers]"

definition initDeferredFeatures :: "bool \<Rightarrow> stmt list" where
  "initDeferredFeatures hasRequestIdleCallback =
     [RequestAnimationFrame
        [RequestAnimationFrame
           (Call InitHeroSwiperDeferred # deferInit hasRequestIdleCallback nonCritical)]]"

definition critical :: "stmt list" where
  "critical = [Call InitHeader, Call InitMobileMenu, Call InitDropdowns]"

definition page_ready :: "bool \<Rightarrow> event_loop" where
  "page_ready hasRequestIdleCallback =
     exec (critical @ initDeferredFeatures hasRequestIdleCallback) \<lparr>calls = [], queue = []\<rparr>"

subsection \<open>Scroll-triggered reveal\<close>

text \<open>
  \<^verbatim>\<open>initScrollAnimations\<close>, the same in both scripts. An element with \<^verbatim>\<open>data-animate\<close> is given
  by its class list and its \<^verbatim>\<open>dataset.delay\<close>; elements are named by their index in
  \<^verbatim>\<open>querySelectorAll('[data-animate]')\<close>. The page holds the elements, the targets the
  IntersectionObserver observes, the pending \<^verbatim>\<open>setTimeout\<close> callbacks (delay and target) and
  the record of class changes: the elements whose class list gained \<^verbatim>\<open>animated\<close>, in order
  (\<^verbatim>\<open>classList.add\<close> of a class already present changes nothing).
\<close>

record anim_el =
  el_classes :: classList
  el_delay :: "nat option"

record io_entry =
  target :: nat
  isIntersecting :: bool

record scroll_page =
  animatedElements :: "anim_el list"
  observed :: "nat set"
  reveal_timers :: "(nat \<times> nat) list"
  revealed_log :: "nat list"

definition is_animated :: "scroll_page \<Rightarrow> nat \<Rightarrow> bool" where
  "is_animated w t =
     (t < length (animatedElements w)
      \<and> classList_contains ''animated'' (el_classes (animatedElements w ! t)))"

definition add_animated :: "nat \<Rightarrow> scroll_page \<Rightarrow> scroll_page" where
  "add_animated t w =
     (if t < length (animatedElements w) \<and> \<not> is_animated w t
      then w\<lparr>animatedElements :=
               (animatedElements w)
                 [t := (animatedElements w ! t)
                         \<lparr>el_classes := classList_add ''animated'' (el_classes (animatedElements w ! t))\<rparr>],
             revealed_log := revealed_log w @ [t]\<rparr>
      else w)"

definition dataset_delay :: "scroll_page \<Rightarrow> nat \<Rightarrow> nat option" where
  "dataset_delay w t = (if t < length (animatedElements w) then el_delay (animatedElements w ! t) else None)"

text \<open>The observer's callback, entry by entry, and the callback of a reveal timer.\<close>

definition on_entry :: "io_entry \<Rightarrow> scroll_page \<Rightarrow> scroll_page" where
  "on_entry entry w =
     (if isIntersecting entry then
        (let delay = (case dataset_delay w (target entry) of None \<Rightarrow> 0 | Some d \<Rightarrow> d)
         in w\<lparr>reveal_timers := reveal_timers w @ [(delay, target entry)],
              observed := observed w - {target entry}\<rparr>)
      else w)"

definition observer_callback :: "io_entry list \<Rightarrow> scroll_page \<Rightarrow> scroll_page" where
  "observer_callback entries w = fold on_entry entries w"

definition reveal_timer_fires :: "nat \<Rightarrow> scroll_page \<Rightarrow> scroll_page" where
  "reveal_timer_fires k w =
     (if k < length (reveal_timers w)
      then add_animated (snd (reveal_timers w ! k))
             (w\<lparr>reveal_timers := take k (reveal_timers w) @ drop (Suc k) (reveal_timers w)\<rparr>)
      else w)"

definition initScrollAnimations :: "bool \<Rightarrow> anim_el list \<Rightarrow> scroll_page" where
  "initScrollAnimations prefersReducedMotion elements =
     (let w = \<lparr>animatedElements = elements, observed = {}, reveal_timers = [], revealed_log = []\<rparr>
      in if length elements = 0 then w
         else if prefersReducedMotion then fold add_animated [0..<length elements] w
         else w\<lparr>animatedElements :=
                  map (\<lambda>(index, el). if el_delay el = None then el\<lparr>el_delay := Some (index mod 6 * 100)\<rparr> else el)
                    (enumerate 0 elements),
                observed := {0..<length elements}\<rparr>)"

text \<open>
  What happens after initialization: the observer delivers a batch of entries to its callback,
  or the pending timer at some position fires. The browser reports only targets that the
  observer observes at that time, and only a pending timer fires.
\<close>

datatype scroll_event = Reports "io_entry list" | RevealTimer nat

fun scroll_step :: "scroll_event \<Rightarrow> scroll_page \<Rightarrow> scroll_page" where
  "scroll_step (Reports entries) w = observer_callback entries w"
| "scroll_step (RevealTimer k) w = reveal_timer_fires k w"

fun scroll_run :: "scroll_event list \<Rightarrow> scroll_page \<Rightarrow> scroll_page" where
  "scroll_run [] w = w"
| "scroll_run (ev # evs) w = scroll_run evs (scroll_step ev w)"

fun possible :: "scroll_event list \<Rightarrow> scroll_page \<Rightarrow> bool" where
  "possible [] w = True"
| "possible (Reports entries # evs) w =
     (list_all (\<lambda>x. target x \<in> observed w) entries \<and> possible evs (observer_callback entries w))"
| "possible (RevealTimer k # evs) w =
     (k < length (reveal_timers w) \<and> possible evs (reveal_timer_fires k w))"

subsection \<open>Notions used to state the properties\<close>

text \<open>The input and the error message element of a required field.\<close>

definition input_of :: "field \<Rightarrow> contact_page \<Rightarrow> input_el option" where
  "input_of f p = (case f of Name \<Rightarrow> nameInput p | Email \<Rightarrow> emailInput p | Message \<Rightarrow> messageInput p)"

definition error_of :: "field \<Rightarrow> contact_page \<Rightarrow> jsstring option" where
  "error_of f p = (case f of Name \<Rightarrow> nameError p | Email \<Rightarrow> emailError p | Message \<Rightarrow> messageError p)"

text \<open>The events that validate a field: a blur of it, and a submit.\<close>

definition validates :: "field \<Rightarrow> form_event \<Rightarrow> bool" where
  "validates f ev = (ev = Blur f \<or> ev = Submit)"

text \<open>
  Every control of the form has an empty value. The markup gives no control of the form a
  default value: the text inputs have none and the default option of the select has the value
  \<^verbatim>\<open>""\<close>.
\<close>

definition values_cleared :: "contact_page \<Rightarrow> bool" where
  "values_cleared p =
     (list_all (\<lambda>x. case x of None \<Rightarrow> True | Some i \<Rightarrow> inp_value i = [])
        [nameInput p, emailInput p, messageInput p, phoneInput p]
      \<and> (case subjectSelect p of None \<Rightarrow> True | Some s \<Rightarrow> select_value s = []))"

definition defaults_blank :: "contact_page \<Rightarrow> bool" where
  "defaults_blank p =
     (list_all (\<lambda>x. case x of None \<Rightarrow> True | Some i \<Rightarrow> inp_default i = [])
        [nameInput p, emailInput p, messageInput p, phoneInput p]
      \<and> (case subjectSelect p of
            None \<Rightarrow> True
          | Some s \<Rightarrow> select_value (s\<lparr>selectedIndex := sel_default s\<rparr>) = []))"

text \<open>
  The text of an enquiry: the template of \<^verbatim>\<open>whatsappMessage\<close> with its five values in place and
  a line feed for each \<^verbatim>\<open>%0A\<close>. The URL a timer callback opens.
\<close>

definition enquiry_text :: "jsstring \<Rightarrow> jsstring \<Rightarrow> jsstring \<Rightarrow> jsstring \<Rightarrow> jsstring \<Rightarrow> jsstring" where
  "enquiry_text name email phone subj message =
     js ''*'' @ heading @ js ''*'' @ [0x0A, 0x0A]
     @ js ''*Name:* '' @ name @ [0x0A]
     @ js ''*Email:* '' @ email @ [0x0A]
     @ js ''*Phone:* '' @ phone @ [0x0A]
     @ js ''*Subject:* '' @ subj @ [0x0A, 0x0A]
     @ js ''*Message:*'' @ [0x0A] @ message @ [0x0A, 0x0A]
     @ js ''_Sent from Freshflow Foods website contact form._''"

definition task_url :: "timer_task \<Rightarrow> jsstring" where
  "task_url task = (case task of SubmitDone url mailto formData \<Rightarrow> url | SubmitDone_opt url \<Rightarrow> url)"


text \<open>
  What the message shows for the optional controls: the trimmed phone value, or
  \<^verbatim>\<open>Not provided\<close> when there is no phone control or its trimmed value is empty; the label of
  the selected subject option, or \<^verbatim>\<open>General Inquiry\<close> when there is no subject control (no
  label at all when the control has no selected option). A submit button is complete when it
  has both children the listener styles.
\<close>

definition phone_shown :: "contact_page \<Rightarrow> jsstring" where
  "phone_shown p =
     (case phoneInput p of
        None \<Rightarrow> js ''Not provided''
      | Some ph \<Rightarrow> if trim (inp_value ph) = [] then js ''Not provided'' else trim (inp_value ph))"

definition subject_shown :: "contact_page \<Rightarrow> jsstring option" where
  "subject_shown p =
     (case subjectSelect p of
        None \<Rightarrow> Some (js ''General Inquiry'')
      | Some s \<Rightarrow> map_option opt_text (selected_option s))"

definition button_complete :: "contact_page \<Rightarrow> bool" where
  "button_complete p =
     (case submitBtn p of None \<Rightarrow> True | Some b \<Rightarrow> btn_text b \<noteq> None \<and> btn_loading b \<noteq> None)"

text \<open>
  Example pages: the submission of the specification's end-to-end example, with no phone and
  no subject control on the page, and a page where the name has failed validation while the
  success panel is shown.
\<close>

definition blank_input :: input_el where
  "blank_input = \<lparr>inp_value = [], inp_default = [], inp_classes = {}\<rparr>"

definition jo_page :: contact_page where
  "jo_page =
     \<lparr>nameInput = Some (blank_input\<lparr>inp_value := js ''Jo Smith''\<rparr>),
      emailInput = Some (blank_input\<lparr>inp_value := js ''jo@example.com''\<rparr>),
      messageInput = Some (blank_input\<lparr>inp_value := js ''Hello, I would like to order.''\<rparr>),
      nameError = Some [], emailError = Some [], messageError = Some [],
      phoneInput = None, subjectSelect = None,
      submitBtn = Some \<lparr>btn_text = Some [], btn_loading = Some (js ''none''), disabled = False\<rparr>,
      contactForm_display = [], formSuccess = Some (js ''none''),
      timers = [], opened = [], body_children = [], console = []\<rparr>"

definition failed_page :: contact_page where
  "failed_page =
     jo_page\<lparr>nameInput := Some \<lparr>inp_value = js ''A'', inp_default = [], inp_classes = {''error''}\<rparr>,
             nameError := Some (js ''Name must be at least 2 characters.''),
             contactForm_display := js ''none'',
             formSuccess := Some (js ''block'')\<rparr>"

text \<open>
  The same page with a phone number typed in and a subject chosen from a select that starts
  with a placeholder; and a page whose markup prefills the name and has a select without
  placeholder.
\<close>

definition filled_page :: contact_page where
  "filled_page =
     failed_page\<lparr>phoneInput := Some (blank_input\<lparr>inp_value := js ''12345''\<rparr>),
                 subjectSelect := Some \<lparr>sel_options = [\<lparr>opt_value = [], opt_text = js ''Select a subject''\<rparr>,
                                                       \<lparr>opt_value = js ''general'', opt_text = js ''General Inquiry''\<rparr>],
                                        selectedIndex = 1, sel_default = 0\<rparr>\<rparr>"

definition prefilled_page :: contact_page where
  "prefilled_page =
     failed_page\<lparr>nameInput := Some \<lparr>inp_value = js ''A'', inp_default = js ''Jane'', inp_classes = {''error''}\<rparr>,
                 subjectSelect := Some \<lparr>sel_options = [\<lparr>opt_value = js ''general'', opt_text = js ''General Inquiry''\<rparr>,
                                                       \<lparr>opt_value = js ''order'', opt_text = js ''Order''\<rparr>],
                                        selectedIndex = 1, sel_default = 0\<rparr>\<rparr>"



text \<open>The language of a regular expression, against which \<open>regex_test\<close> is justified.\<close>

inductive_set iter :: "jsstring set \<Rightarrow> jsstring set" for A :: "jsstring set" where
  iter_empty: "[] \<in> iter A"
| iter_more: "u \<in> A \<Longrightarrow> v \<in> iter A \<Longrightarrow> u @ v \<in> iter A"

fun lang :: "regex \<Rightarrow> jsstring set" where
  "lang Nothing = {}"
| "lang EmptyStr = {[]}"
| "lang (CharClass p) = {[c] | c. p c}"
| "lang (Concat r s) = {u @ v | u v. u \<in> lang r \<and> v \<in> lang s}"
| "lang (Union r s) = lang r \<union> lang s"
| "lang (Repeat r) = iter (lang r)"

text \<open>
  The shape \<^verbatim>\<open>local@domain.tld\<close>: three non-empty parts without white space and without
  \<^verbatim>\<open>@\<close>, joined by an \<^verbatim>\<open>@\<close> and a dot.
\<close>

definition local_at_domain_tld :: "jsstring \<Rightarrow> bool" where
  "local_at_domain_tld s =
     (\<exists>local domain tld.
        s = local @ js ''@'' @ domain @ js ''.'' @ tld
        \<and> local \<noteq> [] \<and> domain \<noteq> [] \<and> tld \<noteq> []
        \<and> list_all notSpaceAt local \<and> list_all notSpaceAt domain \<and> list_all notSpaceAt tld)"

text \<open>
  The two outcomes of a validation: the field marked with the class \<^verbatim>\<open>error\<close> and the message
  shown, or the class removed and the message element emptied.
\<close>

definition failed :: "input_el \<Rightarrow> jsstring option \<Rightarrow> jsstring \<Rightarrow> bool \<times> input_el \<times> jsstring option" where
  "failed input errorEl message =
     (False, input\<lparr>inp_classes := insert ''error'' (inp_classes input)\<rparr>, map_option (\<lambda>_. message) errorEl)"

definition passed :: "input_el \<Rightarrow> jsstring option \<Rightarrow> bool \<times> input_el \<times> jsstring option" where
  "passed input errorEl =
     (True, input\<lparr>inp_classes := inp_classes input - {''error''}\<rparr>, map_option (\<lambda>_. []) errorEl)"






text \<open>
  The four states the event loop goes through after the document is ready: before the first
  frame, before the second, after the carousel initializer, and with everything initialized.
\<close>

definition idle_trigger :: "bool \<Rightarrow> trigger" where
  "idle_trigger hasRequestIdleCallback = (if hasRequestIdleCallback then WhenIdle 2000 else AfterDelay 100)"

definition stage :: "bool \<Rightarrow> nat \<Rightarrow> event_loop" where
  "stage idle k =
     (if k = 0 then
        \<lparr>calls = [InitHeader, InitMobileMenu, InitDropdowns],
         queue = [(NextFrame, [RequestAnimationFrame (Call InitHeroSwiperDeferred # deferInit idle nonCritical)])]\<rparr>
      else if k = 1 then
        \<lparr>calls = [InitHeader, InitMobileMenu, InitDropdowns],
         queue = [(NextFrame, Call InitHeroSwiperDeferred # deferInit idle nonCritical)]\<rparr>
      else if k = 2 then
        \<lparr>calls = [InitHeader, InitMobileMenu, InitDropdowns, InitHeroSwiperDeferred],
         queue = [(idle_trigger idle, nonCritical)]\<rparr>
      else
        \<lparr>calls = [InitHeader, InitMobileMenu, InitDropdowns, InitHeroSwiperDeferred,
                  InitSmoothScroll, InitScrollAnimations, InitBreedCardsAnimation, InitContactForm,
                  InitActiveNav, InitBackToTop, InitResponsiveHandlers],
         queue = []\<rparr>)"

text \<open>
  The invariants of the reveal: the class-change record has no repetition, every recorded
  element has the class and is no longer observed, and no target of a pending timer is
  observed.
\<close>

definition reveal_inv :: "nat \<Rightarrow> scroll_page \<Rightarrow> bool" where
  "reveal_inv n w =
     (length (animatedElements w) = n
      \<and> observed w \<subseteq> {0..<n}
      \<and> distinct (revealed_log w)
      \<and> (\<forall>t \<in> set (revealed_log w). is_animated w t \<and> t \<notin> observed w)
      \<and> (\<forall>x \<in> set (reveal_timers w). snd x < n \<and> snd x \<notin> observed w))"

text \<open>
  The elements that a sequence of events has reported as intersecting, and what holds of them:
  only they have a reveal pending or recorded, and each of them has its reveal pending or has
  the class.
\<close>

fun entered :: "scroll_event list \<Rightarrow> nat set" where
  "entered [] = {}"
| "entered (Reports entries # evs) = target ` set (filter isIntersecting entries) \<union> entered evs"
| "entered (RevealTimer k # evs) = entered evs"

definition entered_inv :: "nat \<Rightarrow> nat set \<Rightarrow> scroll_page \<Rightarrow> bool" where
  "entered_inv n S w =
     (length (animatedElements w) = n
      \<and> S \<subseteq> {0..<n}
      \<and> snd ` set (reveal_timers w) \<union> set (revealed_log w) \<subseteq> S
      \<and> (\<forall>t \<in> S. t \<in> snd ` set (reveal_timers w) \<or> is_animated w t))"

text \<open>Two animation candidates, one with a delay in the markup.\<close>

definition two_cards :: "anim_el list" where
  "two_cards = [\<lparr>el_classes = {''card''}, el_delay = None\<rparr>, \<lparr>el_classes = {''card''}, el_delay = Some 250\<rparr>]"

section \<open>Properties\<close>

subsection \<open>Header\<close>

lemma scrolled_checkHeaderScroll: "(''scrolled'' \<in> checkHeaderScroll y h) = (y > 50)"
  by (simp add: checkHeaderScroll_def classList_add_def classList_remove_def)

lemma checkScroll_eq: "checkScroll y h = checkHeaderScroll y h"
  by (simp add: checkScroll_def checkHeaderScroll_def classList_toggle_force_def)

text \<open>
  Claim C7. For every scroll offset \<open>y\<close> the header check leaves the header with the class
  \<^verbatim>\<open>scrolled\<close> exactly when \<open>y > 50\<close>, whatever the header's classes were, and a second
  evaluation at the same offset changes nothing. This holds for the check of main.js and for
  the one of the optimized script.
\<close>

theorem header_scrolled_iff_idempotent:
  "(classList_contains ''scrolled'' (checkHeaderScroll y h) = (y > 50))
   \<and> checkHeaderScroll y (checkHeaderScroll y h) = checkHeaderScroll y h
   \<and> (classList_contains ''scrolled'' (checkScroll y h) = (y > 50))
   \<and> checkScroll y (checkScroll y h) = checkScroll y h"
proof -
  have idem: "checkHeaderScroll y (checkHeaderScroll y h) = checkHeaderScroll y h"
    by (auto simp: checkHeaderScroll_def classList_add_def classList_remove_def)
  show ?thesis
    using idem by (simp add: checkScroll_eq scrolled_checkHeaderScroll classList_contains_def)
qed

theorem header_scrolled_iff_idempotent_witness:
  "classList_contains ''scrolled'' (checkHeaderScroll 51 {''header''})
   \<and> \<not> classList_contains ''scrolled'' (checkScroll 50 {''header'', ''scrolled''})
   \<and> checkHeaderScroll 50.5 (checkHeaderScroll 50.5 {}) = checkHeaderScroll 50.5 {}"
  using header_scrolled_iff_idempotent [of 51 "{''header''}"]
    header_scrolled_iff_idempotent [of 50 "{''header'', ''scrolled''}"]
    header_scrolled_iff_idempotent [of "50.5" "{}"]
  by simp

subsection \<open>Dropdowns\<close>

lemma length_close_others: "length (close_others i ds) = length ds"
  by (simp add: close_others_def)

lemma nth_close_others:
  "j < length ds \<Longrightarrow> close_others i ds ! j = (if j \<noteq> i then classList_remove ''active'' (ds ! j) else ds ! j)"
  by (simp add: close_others_def nth_enumerate_eq)

lemma length_dropdown_click: "length (snd (dropdown_click w i ds)) = length ds"
  by (simp add: dropdown_click_def length_close_others)

lemma nth_dropdown_click:
  "w \<le> 991 \<Longrightarrow> j < length ds \<Longrightarrow>
   snd (dropdown_click w i ds) ! j =
     (if j = i then classList_toggle ''active'' (ds ! i) else classList_remove ''active'' (ds ! j))"
  by (simp add: dropdown_click_def nth_close_others)

lemma not_open_remove: "\<not> is_open (classList_remove ''active'' d)"
  by (simp add: is_open_def classList_contains_def classList_remove_def)

lemma is_open_toggle: "is_open (classList_toggle ''active'' d) = (\<not> is_open d)"
  by (simp add: is_open_def classList_contains_def classList_toggle_def classList_remove_def classList_add_def)

lemma filter_eq_upt: "filter (\<lambda>j. i = j) [0..<n] = (if i < n then [i] else [])"
  by (induction n) auto

lemma open_after_click:
  assumes "w \<le> 991"
  shows "open_dropdowns (snd (dropdown_click w i ds)) = (if i < length ds \<and> \<not> is_open (ds ! i) then [i] else [])"
proof -
  let ?ds' = "snd (dropdown_click w i ds)"
  have "open_dropdowns ?ds' = filter (\<lambda>j. j = i \<and> \<not> is_open (ds ! i)) [0..<length ds]"
    unfolding open_dropdowns_def length_dropdown_click
    by (rule filter_cong) (auto simp: nth_dropdown_click [OF assms] not_open_remove is_open_toggle)
  also have "\<dots> = (if i < length ds \<and> \<not> is_open (ds ! i) then [i] else [])"
  proof (cases "i < length ds \<and> \<not> is_open (ds ! i)")
    case True
    then have "filter (\<lambda>j. j = i \<and> \<not> is_open (ds ! i)) [0..<length ds] = filter (\<lambda>j. i = j) [0..<length ds]"
      by (intro filter_cong) auto
    also have "\<dots> = [i]" using True by (simp add: filter_eq_upt)
    finally show ?thesis using True by simp
  next
    case False
    then have "filter (\<lambda>j. j = i \<and> \<not> is_open (ds ! i)) [0..<length ds] = []"
      by (auto simp: filter_empty_conv)
    then show ?thesis using False by simp
  qed
  finally show ?thesis .
qed

lemma at_most_one_click:
  "length (open_dropdowns ds) \<le> 1 \<Longrightarrow> length (open_dropdowns (snd (dropdown_click w i ds))) \<le> 1"
  by (cases "w \<le> 991") (simp_all add: open_after_click, simp add: dropdown_click_def)

lemma at_most_one_clicks:
  "length (open_dropdowns ds) \<le> 1 \<Longrightarrow> length (open_dropdowns (dropdown_clicks clicks ds)) \<le> 1"
proof (induction clicks arbitrary: ds)
  case Nil
  then show ?case by simp
next
  case (Cons c clicks)
  obtain w i where c: "c = (w, i)" by (cases c)
  show ?case unfolding c dropdown_clicks.simps
    by (rule Cons.IH) (rule at_most_one_click [OF Cons.prems])
qed

text \<open>
  Claim C6. The click listener of a dropdown toggle calls \<^verbatim>\<open>preventDefault\<close> exactly when
  the viewport width is at most 991. At such a width, clicking the toggle of a closed dropdown
  \<open>a\<close> while another dropdown \<open>b\<close> is open leaves \<open>a\<close> as the only open dropdown
  (\<open>b\<close> is closed). Starting from a page with at most one open dropdown, after every prefix of
  every sequence of toggle clicks (at any widths) at most one dropdown is open.
\<close>

theorem dropdown_intercept_single_open:
  "(fst (dropdown_click w i ds) = (w \<le> 991))
   \<and> (w \<le> 991 \<and> a < length ds \<and> b < length ds \<and> a \<noteq> b
        \<and> \<not> is_open (ds ! a) \<and> is_open (ds ! b) \<longrightarrow>
          open_dropdowns (snd (dropdown_click w a ds)) = [a]
          \<and> \<not> is_open (snd (dropdown_click w a ds) ! b))
   \<and> (length (open_dropdowns ds) \<le> 1 \<longrightarrow>
          (\<forall>n. length (open_dropdowns (dropdown_clicks (take n clicks) ds)) \<le> 1))"
proof (intro conjI impI allI)
  show "fst (dropdown_click w i ds) = (w \<le> 991)"
    by (simp add: dropdown_click_def)
next
  assume h: "w \<le> 991 \<and> a < length ds \<and> b < length ds \<and> a \<noteq> b
    \<and> \<not> is_open (ds ! a) \<and> is_open (ds ! b)"
  then show "open_dropdowns (snd (dropdown_click w a ds)) = [a]"
    by (simp add: open_after_click)
  from h show "\<not> is_open (snd (dropdown_click w a ds) ! b)"
    by (simp add: nth_dropdown_click not_open_remove)
next
  fix n
  assume "length (open_dropdowns ds) \<le> 1"
  then show "length (open_dropdowns (dropdown_clicks (take n clicks) ds)) \<le> 1"
    by (rule at_most_one_clicks)
qed

theorem dropdown_intercept_single_open_witness:
  "fst (dropdown_click 768 0 [{''dropdown''}, {''dropdown'', ''active''}])
   \<and> \<not> fst (dropdown_click 992 0 [{''dropdown''}, {''dropdown'', ''active''}])
   \<and> open_dropdowns (snd (dropdown_click 768 0 [{''dropdown''}, {''dropdown'', ''active''}])) = [0]
   \<and> \<not> is_open (snd (dropdown_click 768 0 [{''dropdown''}, {''dropdown'', ''active''}]) ! 1)
   \<and> length (open_dropdowns (dropdown_clicks [(768, 0), (768, 1)]
         [{''dropdown''}, {''dropdown'', ''active''}])) \<le> 1"
proof -
  let ?ds = "[{''dropdown''}, {''dropdown'', ''active''}] :: classList list"
  have open_ds: "open_dropdowns ?ds = [1]"
    by (simp add: open_dropdowns_def is_open_def classList_contains_def upt_rec)
  have pre: "(768::int) \<le> 991 \<and> (0::nat) < length ?ds \<and> 1 < length ?ds \<and> (0::nat) \<noteq> 1
      \<and> \<not> is_open (?ds ! 0) \<and> is_open (?ds ! 1)"
    by (simp add: is_open_def classList_contains_def)
  have take2: "take 2 [(768::int, 0::nat), (768, 1), (1200, 0)] = [(768, 0), (768, 1)]"
    by simp
  note thm1 = dropdown_intercept_single_open [of 768 0 ?ds 0 1 "[(768, 0), (768, 1), (1200, 0)]"]
  note thm2 = dropdown_intercept_single_open [of 992 0 ?ds 0 1 "[]"]
  have a: "fst (dropdown_click 768 0 ?ds)"
    using thm1 by simp
  have b: "\<not> fst (dropdown_click 992 0 ?ds)"
    using thm2 by simp
  have c: "open_dropdowns (snd (dropdown_click 768 0 ?ds)) = [0]
      \<and> \<not> is_open (snd (dropdown_click 768 0 ?ds) ! 1)"
    using thm1 pre by blast
  have "length (open_dropdowns ?ds) \<le> 1"
    by (simp add: open_ds)
  with thm1 have "length (open_dropdowns (dropdown_clicks
      (take 2 [(768, 0), (768, 1), (1200, 0)]) ?ds)) \<le> 1"
    by blast
  then have d: "length (open_dropdowns (dropdown_clicks [(768, 0), (768, 1)] ?ds)) \<le> 1"
    by (simp only: take2)
  from a b c d show ?thesis by blast
qed

subsection \<open>The email pattern\<close>

lemma nullable_lang: "nullable r = ([] \<in> lang r)"
  by (induction r) (auto intro: iter_empty)

lemma iter_Cons:
  "(c # w \<in> iter A) = (\<exists>u v. w = u @ v \<and> c # u \<in> A \<and> v \<in> iter A)"
proof
  assume "c # w \<in> iter A"
  then show "\<exists>u v. w = u @ v \<and> c # u \<in> A \<and> v \<in> iter A"
  proof (induction "c # w" arbitrary: w rule: iter.induct)
    case (iter_more u v)
    show ?case
    proof (cases u)
      case Nil
      with iter_more show ?thesis by simp
    next
      case (Cons d u')
      with iter_more.hyps(1,2,4) show ?thesis by auto
    qed
  qed
next
  assume "\<exists>u v. w = u @ v \<and> c # u \<in> A \<and> v \<in> iter A"
  then obtain u v where "w = u @ v" "c # u \<in> A" "v \<in> iter A" by blast
  then show "c # w \<in> iter A"
    using iter_more [of "c # u" A v] by simp
qed

lemma lang_residual: "(w \<in> lang (residual c r)) = (c # w \<in> lang r)"
proof (induction r arbitrary: w)
  case (Concat r s)
  have split: "(c # w \<in> lang (Concat r s)) =
      (([] \<in> lang r \<and> c # w \<in> lang s) \<or> (\<exists>u v. w = u @ v \<and> c # u \<in> lang r \<and> v \<in> lang s))"
    by (auto simp: Cons_eq_append_conv append_eq_Cons_conv)
  show ?case
    unfolding split using Concat by (auto simp: nullable_lang)
next
  case (Repeat r)
  then show ?case by (auto simp: iter_Cons)
qed auto

lemma regex_test_lang: "regex_test r s = (s \<in> lang r)"
  by (induction s arbitrary: r) (simp_all add: nullable_lang lang_residual)

lemma iter_CharClass: "iter (lang (CharClass p)) = {w. list_all p w}"
proof (intro set_eqI iffI)
  fix w assume "w \<in> iter (lang (CharClass p))"
  then show "w \<in> {w. list_all p w}"
    by (induction rule: iter.induct) auto
next
  fix w assume "w \<in> {w. list_all p w}"
  then have "list_all p w" by simp
  then show "w \<in> iter (lang (CharClass p))"
  proof (induction w)
    case Nil
    show ?case by (rule iter_empty)
  next
    case (Cons c w)
    then have "[c] \<in> lang (CharClass p)" "w \<in> iter (lang (CharClass p))" by auto
    then have "[c] @ w \<in> iter (lang (CharClass p))" by (rule iter_more)
    then show ?case by simp
  qed
qed

lemma iter_singletons: "iter {[c] |c. p c} = {w. list_all p w}"
  using iter_CharClass [of p] by simp

lemma lang_OneOrMore_CharClass:
  "lang (OneOrMore (CharClass p)) = {w. w \<noteq> [] \<and> list_all p w}"
proof (intro set_eqI iffI)
  fix w assume "w \<in> lang (OneOrMore (CharClass p))"
  then show "w \<in> {w. w \<noteq> [] \<and> list_all p w}"
    by (auto simp: OneOrMore_def iter_singletons)
next
  fix w assume "w \<in> {w. w \<noteq> [] \<and> list_all p w}"
  then obtain c cs where "w = [c] @ cs" "p c" "list_all p cs"
    by (cases w) auto
  then have "\<exists>u v. w = u @ v \<and> (\<exists>c. u = [c] \<and> p c) \<and> list_all p v"
    by blast
  then show "w \<in> lang (OneOrMore (CharClass p))"
    by (simp add: OneOrMore_def iter_singletons)
qed

lemma isValidEmail_iff: "isValidEmail s = local_at_domain_tld s"
  unfolding isValidEmail_def regex_test_lang emailRegex_def local_at_domain_tld_def
    lang.simps(4) [of "OneOrMore _"] lang.simps(4) [of "CharClass _"] lang_OneOrMore_CharClass lang.simps(3)
  by (auto simp: js_def) blast


subsection \<open>Field validation\<close>

lemma validateField_opt_eq: "validateField_opt i e t = validateField i e t"
  by (simp add: validateField_opt_def validateField_def Let_def split: prod.splits)

lemma show_after_clear:
  "showError (fst (clearError i e)) (snd (clearError i e)) m = snd (failed i e m)"
  by (cases e) (simp_all add: showError_def clearError_def failed_def classList_add_def classList_remove_def)

lemma clearError_passed: "clearError i e = snd (passed i e)"
  by (cases e) (simp_all add: clearError_def passed_def classList_remove_def)

lemma validateField_cases:
  "validateField i e t =
     (if trim (inp_value i) = [] then failed i e (js ''This field is required.'')
      else if t = ''email'' \<and> \<not> isValidEmail (trim (inp_value i))
        then failed i e (js ''Please enter a valid email address.'')
      else if t = ''name'' \<and> length (trim (inp_value i)) < 2
        then failed i e (js ''Name must be at least 2 characters.'')
      else if t = ''message'' \<and> length (trim (inp_value i)) < 10
        then failed i e (js ''Message must be at least 10 characters.'')
      else passed i e)"
  using show_after_clear [of i e] clearError_passed [of i e]
  by (simp add: validateField_def Let_def failed_def passed_def split: prod.splits)


subsection \<open>Encoding and decoding URI components\<close>

lemma split3: "(cp::nat) div 0x1000 * 0x1000 + cp div 0x40 mod 0x40 * 0x40 + cp mod 0x40 = cp"
proof -
  have "cp mod (0x40 * 0x40) = 0x40 * (cp div 0x40 mod 0x40) + cp mod 0x40"
    by (rule mod_mult2_eq)
  then have "cp mod 0x1000 = cp div 0x40 mod 0x40 * 0x40 + cp mod 0x40"
    by simp
  moreover have "cp div 0x1000 * 0x1000 + cp mod 0x1000 = cp"
    by simp
  ultimately show ?thesis by linarith
qed

lemma split4: "(cp::nat) div 0x40000 * 0x40000 + cp div 0x1000 mod 0x40 * 0x1000 + cp div 0x40 mod 0x40 * 0x40 + cp mod 0x40 = cp"
proof -
  have "cp mod (0x1000 * 0x40) = 0x1000 * (cp div 0x1000 mod 0x40) + cp mod 0x1000"
    by (rule mod_mult2_eq)
  then have "cp mod 0x40000 = cp div 0x1000 mod 0x40 * 0x1000 + cp mod 0x1000"
    by simp
  moreover have "cp mod (0x40 * 0x40) = 0x40 * (cp div 0x40 mod 0x40) + cp mod 0x40"
    by (rule mod_mult2_eq)
  then have "cp mod 0x1000 = cp div 0x40 mod 0x40 * 0x40 + cp mod 0x40"
    by simp
  moreover have "cp div 0x40000 * 0x40000 + cp mod 0x40000 = cp"
    by simp
  ultimately show ?thesis by linarith
qed


lemma hexValue_hexDigit: "d < 16 \<Longrightarrow> hexValue (hexDigit d) = Some d"
proof -
  have "\<forall>d \<in> set [0..<16]. hexValue (hexDigit d) = Some d"
    by (simp add: upt_rec hexValue_def hexDigit_def js_def ch_def)
  moreover assume "d < 16"
  ultimately show ?thesis by simp
qed

lemma escape_octet_percent: "b < 256 \<Longrightarrow> escape_octet (percent b @ rest) = Some (b, rest)"
proof -
  assume b: "b < 256"
  then have "b div 16 < 16" "b mod 16 < 16" by auto
  then show ?thesis
    by (simp add: percent_def hexValue_hexDigit)
qed

lemma percent_head: "percent b @ rest = ch CHR ''%'' # hexDigit (b div 16) # hexDigit (b mod 16) # rest"
  by (simp add: percent_def)

lemma Decode_percent:
  "Decode (percent b @ rest) =
     (case escape_octet (percent b @ rest) of
        None \<Rightarrow> Inl URIError
      | Some (b, rest) \<Rightarrow>
          if leadingOnes b = 0 then prepend [of_nat b] (Decode rest)
          else if leadingOnes b = 1 \<or> leadingOnes b > 4 then Inl URIError
          else
            (case continuation (leadingOnes b - 1) rest of
               None \<Rightarrow> Inl URIError
             | Some (bs, rest') \<Rightarrow>
                 (case utf8_decode (b # bs) of
                    None \<Rightarrow> Inl URIError
                  | Some cp \<Rightarrow> prepend (utf16 cp) (Decode rest'))))"
  unfolding percent_head by (subst Decode.simps(2)) simp

lemma Decode_escape1:
  assumes "cp < 0x80"
  shows "Decode (escape cp @ x) = prepend (utf16 cp) (Decode x)"
  using assms
  by (simp add: escape_def utf8_def Decode_percent escape_octet_percent leadingOnes_def utf16_def)

lemma Decode_escape2:
  assumes "0x80 \<le> cp" "cp < 0x800"
  shows "Decode (escape cp @ x) = prepend (utf16 cp) (Decode x)"
proof -
  let ?b0 = "0xC0 + cp div 0x40" and ?b1 = "0x80 + cp mod 0x40"
  have b0: "?b0 < 256" "0xC0 \<le> ?b0" "?b0 < 0xE0" using assms by auto
  have b1: "?b1 < 256" by auto
  have esc: "escape cp @ x = percent ?b0 @ percent ?b1 @ x"
    using assms by (simp add: escape_def utf8_def)
  have cont: "continuation (Suc 0) (percent ?b1 @ x) = Some ([?b1], x)"
    using b1 by (simp add: escape_octet_percent)
  have dec: "utf8_decode [?b0, ?b1] = Some cp"
    using assms by (simp add: isContinuation_def)
  show ?thesis
    unfolding esc Decode_percent
    using b0 cont dec by (simp add: escape_octet_percent leadingOnes_def)
qed

lemma Decode_escape3:
  assumes "0x800 \<le> cp" "cp < 0x10000" "isScalar cp"
  shows "Decode (escape cp @ x) = prepend (utf16 cp) (Decode x)"
proof -
  let ?b0 = "0xE0 + cp div 0x1000" and ?b1 = "0x80 + cp div 0x40 mod 0x40" and ?b2 = "0x80 + cp mod 0x40"
  have b0: "?b0 < 256" "0xE0 \<le> ?b0" "?b0 < 0xF0" using assms by auto
  have b1: "?b1 < 256" "?b2 < 256" by auto
  have esc: "escape cp @ x = percent ?b0 @ percent ?b1 @ percent ?b2 @ x"
    using assms by (simp add: escape_def utf8_def)
  have cont: "continuation (Suc (Suc 0)) (percent ?b1 @ percent ?b2 @ x) = Some ([?b1, ?b2], x)"
    using b1 by (simp add: escape_octet_percent)
  have dec: "utf8_decode [?b0, ?b1, ?b2] = Some cp"
    using assms by (simp add: isContinuation_def split3)
  show ?thesis
    unfolding esc Decode_percent
    using b0 cont dec by (simp add: escape_octet_percent leadingOnes_def numeral_2_eq_2)
qed

lemma Decode_escape4:
  assumes "0x10000 \<le> cp" "cp \<le> 0x10FFFF"
  shows "Decode (escape cp @ x) = prepend (utf16 cp) (Decode x)"
proof -
  let ?b0 = "0xF0 + cp div 0x40000" and ?b1 = "0x80 + cp div 0x1000 mod 0x40"
  and ?b2 = "0x80 + cp div 0x40 mod 0x40" and ?b3 = "0x80 + cp mod 0x40"
  have b0: "?b0 < 256" "0xF0 \<le> ?b0" "?b0 < 0xF8" using assms by auto
  have b1: "?b1 < 256" "?b2 < 256" "?b3 < 256" by auto
  have esc: "escape cp @ x = percent ?b0 @ percent ?b1 @ percent ?b2 @ percent ?b3 @ x"
    using assms by (simp add: escape_def utf8_def)
  have cont: "continuation (Suc (Suc (Suc 0))) (percent ?b1 @ percent ?b2 @ percent ?b3 @ x)
      = Some ([?b1, ?b2, ?b3], x)"
    using b1 by (simp add: escape_octet_percent)
  have dec: "utf8_decode [?b0, ?b1, ?b2, ?b3] = Some cp"
    using assms by (simp add: isContinuation_def isScalar_def split4)
  show ?thesis
    unfolding esc Decode_percent
    using b0 cont dec by (simp add: escape_octet_percent leadingOnes_def numeral_3_eq_3)
qed

lemma Decode_escape:
  assumes "isScalar cp"
  shows "Decode (escape cp @ x) = prepend (utf16 cp) (Decode x)"
proof (cases "cp < 0x80")
  case True
  then show ?thesis by (rule Decode_escape1)
next
  case ge1: False
  show ?thesis
  proof (cases "cp < 0x800")
    case True
    with ge1 show ?thesis by (simp add: Decode_escape2)
  next
    case ge2: False
    show ?thesis
    proof (cases "cp < 0x10000")
      case True
      with ge2 assms show ?thesis by (simp add: Decode_escape3)
    next
      case False
      with assms show ?thesis by (simp add: Decode_escape4 isScalar_def)
    qed
  qed
qed


lemma prepend_Nil [simp]: "prepend [] r = r"
  by (cases r) (simp_all add: prepend_def)

lemma prepend_prepend [simp]: "prepend a (prepend b r) = prepend (a @ b) r"
  by (cases r) (simp_all add: prepend_def)

lemma prepend_Inr [simp]: "prepend a (Inr t) = Inr (a @ t)"
  by (simp add: prepend_def)

lemma prepend_Inl [simp]: "prepend a (Inl e) = Inl e"
  by (simp add: prepend_def)

lemma prepend_eq_Inr: "(prepend a r = Inr e) = (\<exists>t. r = Inr t \<and> e = a @ t)"
  by (cases r) auto

lemma unreserved_not_percent: "isUnreserved c \<Longrightarrow> c \<noteq> ch CHR ''%''"
  by (auto simp: isUnreserved_def js_def ch_def)

lemma unreserved_not_surrogate: "isUnreserved c \<Longrightarrow> \<not> isTrailSurrogate c \<and> \<not> isLeadSurrogate c"
  by (auto simp: isUnreserved_def js_def ch_def isTrailSurrogate_def isLeadSurrogate_def word_le_nat_alt)

lemma bmp_scalar:
  "\<not> isTrailSurrogate c \<Longrightarrow> \<not> isLeadSurrogate c \<Longrightarrow> isScalar (unat c) \<and> utf16 (unat c) = [c]"
proof -
  assume a: "\<not> isTrailSurrogate c" "\<not> isLeadSurrogate c"
  have lt: "unat c < 0x10000" using unsigned_less [of c] by simp
  from a have "unat c < 0xD800 \<or> 0xE000 \<le> unat c"
    by (simp add: isTrailSurrogate_def isLeadSurrogate_def word_le_nat_alt) linarith
  with lt show ?thesis by (auto simp: isScalar_def utf16_def)
qed

lemma pair_scalar:
  assumes "isLeadSurrogate c" "isTrailSurrogate d"
  shows "isScalar (codePoint c d) \<and> utf16 (codePoint c d) = [c, d]"
proof -
  define h where "h = unat c - 0xD800"
  define l where "l = unat d - 0xDC00"
  have h: "unat c = 0xD800 + h" "h < 0x400"
    using assms(1) by (auto simp: h_def isLeadSurrogate_def word_le_nat_alt)
  have l: "unat d = 0xDC00 + l" "l < 0x400"
    using assms(2) by (auto simp: l_def isTrailSurrogate_def word_le_nat_alt)
  have cp: "codePoint c d = 0x10000 + (h * 0x400 + l)"
    by (simp add: codePoint_def h l)
  have "(h * 0x400 + l) div 0x400 = h" "(h * 0x400 + l) mod 0x400 = l"
    using l(2) by simp_all
  then have "utf16 (codePoint c d) = [of_nat (unat c), of_nat (unat d)]"
    by (simp add: utf16_def cp h l)
  moreover have "isScalar (codePoint c d)"
    using h(2) l(2) by (simp add: isScalar_def cp)
  ultimately show ?thesis by simp
qed

lemma Decode_Encode:
  "Encode s = Inr e \<Longrightarrow> Decode (e @ rest) = prepend s (Decode rest)"
proof (induction s arbitrary: e rule: Encode.induct)
  case 1
  then show ?case by simp
next
  case (2 c cs)
  show ?case
  proof (cases "isUnreserved c")
    case True
    with "2.prems" obtain t where t: "Encode cs = Inr t" "e = c # t"
      by (auto simp: prepend_eq_Inr)
    from "2.IH"(1) [OF True t(1)] True show ?thesis
      by (simp add: t(2) unreserved_not_percent)
  next
    case unres: False
    show ?thesis
    proof (cases "isTrailSurrogate c")
      case True
      with unres "2.prems" show ?thesis by simp
    next
      case notrail: False
      show ?thesis
      proof (cases "isLeadSurrogate c")
        case True
        with unres notrail "2.prems" obtain d ds t where
          d: "cs = d # ds" "isTrailSurrogate d" "Encode ds = Inr t" "e = escape (codePoint c d) @ t"
          by (auto simp: prepend_eq_Inr split: list.splits if_splits)
        have "Decode (t @ rest) = prepend ds (Decode rest)"
          using "2.IH"(2) [OF unres notrail True d(1) d(2) d(3)] .
        then show ?thesis
          using pair_scalar [OF True d(2)] by (simp add: d Decode_escape)
      next
        case False
        with unres notrail "2.prems" obtain t where
          t: "Encode cs = Inr t" "e = escape (unat c) @ t"
          by (auto simp: prepend_eq_Inr)
        have "Decode (t @ rest) = prepend cs (Decode rest)"
          using "2.IH"(3) [OF unres notrail False t(1)] .
        then show ?thesis
          using bmp_scalar [OF notrail False] by (simp add: t Decode_escape)
      qed
    qed
  qed
qed

lemma Encode_wellFormed: "(\<exists>e. Encode s = Inr e) = wellFormed s"
  by (induction s rule: Encode.induct)
    (auto simp: prepend_eq_Inr unreserved_not_surrogate split: list.splits)

lemma Decode_literal:
  "list_all (\<lambda>c. c \<noteq> ch CHR ''%'') lit \<Longrightarrow> Decode (lit @ rest) = prepend lit (Decode rest)"
  by (induction lit) simp_all

lemma Decode_newline: "Decode (js ''%0A'' @ rest) = prepend [0x0A] (Decode rest)"
proof -
  have "escape 10 = js ''%0A''"
    by (simp add: escape_def utf8_def percent_def hexDigit_def js_def)
  then show ?thesis
    using Decode_escape1 [of 10 rest] by (simp add: utf16_def)
qed

subsection \<open>Contact form: validation rules\<close>

text \<open>
  Claim C2. \<open>validateField\<close> applies its rules in a fixed order and the first failure decides:
  an empty trimmed value is invalid with "This field is required."; otherwise an email whose
  trimmed value is not of the shape local@domain.tld, a name whose trimmed value has fewer than
  2 code units and a message whose trimmed value has fewer than 10 code units are invalid, each
  with its own message; any other value is valid, the error class is removed and the message
  element is emptied. The optimized script's \<open>validateField\<close> computes the same.
\<close>

theorem validateField_rule_order:
  "validateField i e t =
     (if trim (inp_value i) = [] then failed i e (js ''This field is required.'')
      else if t = ''email'' \<and> \<not> local_at_domain_tld (trim (inp_value i))
        then failed i e (js ''Please enter a valid email address.'')
      else if t = ''name'' \<and> length (trim (inp_value i)) < 2
        then failed i e (js ''Name must be at least 2 characters.'')
      else if t = ''message'' \<and> length (trim (inp_value i)) < 10
        then failed i e (js ''Message must be at least 10 characters.'')
      else passed i e)
   \<and> validateField_opt i e t = validateField i e t"
  by (simp only: validateField_cases validateField_opt_eq isValidEmail_iff simp_thms)

lemma jo_email: "isValidEmail (js ''jo@example.com'')"
  by (simp add: isValidEmail_def emailRegex_def OneOrMore_def js_def ch_def notSpaceAt_def isWhiteSpace_def)

lemma bad_email: "\<not> isValidEmail (js ''jo@example'')"
  by (simp add: isValidEmail_def emailRegex_def OneOrMore_def js_def ch_def notSpaceAt_def isWhiteSpace_def)

theorem validateField_rule_order_witness:
  "validateField \<lparr>inp_value = js ''  '', inp_default = [], inp_classes = {}\<rparr> (Some []) ''email''
     = (False, \<lparr>inp_value = js ''  '', inp_default = [], inp_classes = {''error''}\<rparr>,
        Some (js ''This field is required.''))
   \<and> validateField \<lparr>inp_value = js ''A'', inp_default = [], inp_classes = {}\<rparr> (Some []) ''name''
     = (False, \<lparr>inp_value = js ''A'', inp_default = [], inp_classes = {''error''}\<rparr>,
        Some (js ''Name must be at least 2 characters.''))
   \<and> validateField \<lparr>inp_value = js ''jo@example'', inp_default = [], inp_classes = {}\<rparr> (Some []) ''email''
     = (False, \<lparr>inp_value = js ''jo@example'', inp_default = [], inp_classes = {''error''}\<rparr>,
        Some (js ''Please enter a valid email address.''))
   \<and> validateField \<lparr>inp_value = js ''Too short'', inp_default = [], inp_classes = {}\<rparr> (Some []) ''message''
     = (False, \<lparr>inp_value = js ''Too short'', inp_default = [], inp_classes = {''error''}\<rparr>,
        Some (js ''Message must be at least 10 characters.''))
   \<and> validateField_opt \<lparr>inp_value = js '' jo@example.com '', inp_default = [], inp_classes = {''error''}\<rparr>
       (Some (js ''This field is required.'')) ''email''
     = (True, \<lparr>inp_value = js '' jo@example.com '', inp_default = [], inp_classes = {}\<rparr>, Some [])"
proof -
  have t1: "trim (js ''  '') = []" and t2: "trim (js ''A'') = js ''A''"
    and t3: "trim (js ''jo@example'') = js ''jo@example''"
    and t4: "trim (js ''Too short'') = js ''Too short''"
    and t5: "trim (js '' jo@example.com '') = js ''jo@example.com''"
    by (simp_all add: trim_def js_def ch_def isWhiteSpace_def)
  have n: "js ''A'' \<noteq> []" "js ''jo@example'' \<noteq> []" "js ''Too short'' \<noteq> []" "js ''jo@example.com'' \<noteq> []"
    "length (js ''A'') < 2" "length (js ''Too short'') < 10"
    by (simp_all add: js_def)
  note e = jo_email [unfolded isValidEmail_iff] bad_email [unfolded isValidEmail_iff]
  show ?thesis
    using validateField_rule_order [of "\<lparr>inp_value = js ''  '', inp_default = [], inp_classes = {}\<rparr>" "Some []" "''email''"]
      validateField_rule_order [of "\<lparr>inp_value = js ''A'', inp_default = [], inp_classes = {}\<rparr>" "Some []" "''name''"]
      validateField_rule_order [of "\<lparr>inp_value = js ''jo@example'', inp_default = [], inp_classes = {}\<rparr>" "Some []" "''email''"]
      validateField_rule_order [of "\<lparr>inp_value = js ''Too short'', inp_default = [], inp_classes = {}\<rparr>" "Some []" "''message''"]
      validateField_rule_order [of "\<lparr>inp_value = js '' jo@example.com '', inp_default = [], inp_classes = {''error''}\<rparr>"
        "Some (js ''This field is required.'')" "''email''"]
    by (simp add: t1 t2 t3 t4 t5 n e failed_def passed_def)
qed


subsection \<open>Contact form: listeners\<close>

lemma error_of_on_input: "error_of g (on_input f p) = error_of g p"
  by (cases f; cases g) (simp_all add: error_of_def on_input_def)

lemma error_of_on_blur: "g \<noteq> f \<Longrightarrow> error_of g (on_blur script f p) = error_of g p"
  by (cases f; cases g) (simp_all add: error_of_def on_blur_def split: option.splits prod.splits)

lemma on_button_frame:
  "snd (on_button h p) = p\<lparr>submitBtn := submitBtn (snd (on_button h p))\<rparr>"
  by (cases "submitBtn p") (simp_all add: on_button_def split: prod.splits)

lemma error_of_submitBtn_update: "error_of g (p\<lparr>submitBtn := b\<rparr>) = error_of g p"
  by (cases g) (simp_all add: error_of_def)

lemma error_of_on_button: "error_of g (snd (on_button h p)) = error_of g p"
  by (subst on_button_frame) (rule error_of_submitBtn_update)

lemma snd_case_outcome:
  "snd (case r of (Some x, q) \<Rightarrow> (Some x, q) | (None, q) \<Rightarrow> (None, k q))
     = (if fst r = None then k (snd r) else snd r)"
  by (cases r; cases "fst r") simp_all

lemma error_of_run_task: "error_of g (snd (run_task task p)) = error_of g p"
proof (cases task)
  case (SubmitDone url mailto formData)
  have upd: "error_of g (q\<lparr>console := c\<rparr>) = error_of g q" for q c
    by (cases g) (simp_all add: error_of_def)
  have pre: "error_of g (p\<lparr>opened := a, body_children := b, contactForm_display := d, formSuccess := s\<rparr>)
      = error_of g p" for a b d s
    by (cases g) (simp_all add: error_of_def)
  show ?thesis
    unfolding SubmitDone run_task.simps Let_def snd_case_outcome
    by (simp add: upd error_of_on_button pre)
next
  case (SubmitDone_opt url)
  have pre: "error_of g (p\<lparr>opened := a, contactForm_display := d, formSuccess := s\<rparr>) = error_of g p" for a d s
    by (cases g) (simp_all add: error_of_def)
  show ?thesis
    unfolding SubmitDone_opt run_task.simps Let_def
    by (simp add: error_of_on_button pre)
qed

lemma error_of_fire_timer: "error_of g (snd (fire_timer p)) = error_of g p"
proof (cases "timers p")
  case Nil
  then show ?thesis by (simp add: fire_timer_def)
next
  case (Cons a rest)
  obtain delay task where a: "a = (delay, task)" by (cases a)
  have "error_of g (p\<lparr>timers := rest\<rparr>) = error_of g p"
    by (cases g) (simp_all add: error_of_def)
  then show ?thesis
    by (simp add: fire_timer_def Cons a error_of_run_task)
qed

lemma error_of_handle:
  "\<not> validates f ev \<Longrightarrow> ev \<noteq> ResetClick \<Longrightarrow> error_of f (handle script ev p) = error_of f p"
  by (cases ev)
    (auto simp: handle_def validates_def error_of_on_input error_of_on_blur error_of_fire_timer)

lemma error_of_handle_all:
  "list_all (\<lambda>ev. \<not> validates f ev \<and> ev \<noteq> ResetClick) evs
     \<Longrightarrow> error_of f (handle_all script evs p) = error_of f p"
  by (induction evs arbitrary: p) (simp_all add: error_of_handle)

text \<open>What the click listener of the reset control leaves in each part of the page.\<close>

lemma reset_click_fields:
  "nameInput (reset_click p)
     = map_option (\<lambda>i. i\<lparr>inp_value := inp_default i, inp_classes := inp_classes i - {''error''}\<rparr>) (nameInput p)"
  "emailInput (reset_click p)
     = map_option (\<lambda>i. i\<lparr>inp_value := inp_default i, inp_classes := inp_classes i - {''error''}\<rparr>) (emailInput p)"
  "messageInput (reset_click p)
     = map_option (\<lambda>i. i\<lparr>inp_value := inp_default i, inp_classes := inp_classes i - {''error''}\<rparr>) (messageInput p)"
  "phoneInput (reset_click p) = map_option (\<lambda>i. i\<lparr>inp_value := inp_default i\<rparr>) (phoneInput p)"
  "subjectSelect (reset_click p) = map_option (\<lambda>s. s\<lparr>selectedIndex := sel_default s\<rparr>) (subjectSelect p)"
  "nameError (reset_click p) = map_option (\<lambda>t. []) (nameError p)"
  "emailError (reset_click p) = map_option (\<lambda>t. []) (emailError p)"
  "messageError (reset_click p) = map_option (\<lambda>t. []) (messageError p)"
  "contactForm_display (reset_click p) = js ''block''"
  "formSuccess (reset_click p) = map_option (\<lambda>d. js ''none'') (formSuccess p)"
proof -
  have inp: "map_option remove_error_class (map_option reset_input x)
      = map_option (\<lambda>i. i\<lparr>inp_value := inp_default i, inp_classes := inp_classes i - {''error''}\<rparr>) x" for x
    by (cases x) (simp_all add: remove_error_class_def reset_input_def classList_remove_def)
  have ph: "map_option reset_input x = map_option (\<lambda>i. i\<lparr>inp_value := inp_default i\<rparr>) x" for x
    by (cases x) (simp_all add: reset_input_def)
  show "nameInput (reset_click p)
     = map_option (\<lambda>i. i\<lparr>inp_value := inp_default i, inp_classes := inp_classes i - {''error''}\<rparr>) (nameInput p)"
    "emailInput (reset_click p)
     = map_option (\<lambda>i. i\<lparr>inp_value := inp_default i, inp_classes := inp_classes i - {''error''}\<rparr>) (emailInput p)"
    "messageInput (reset_click p)
     = map_option (\<lambda>i. i\<lparr>inp_value := inp_default i, inp_classes := inp_classes i - {''error''}\<rparr>) (messageInput p)"
    "phoneInput (reset_click p) = map_option (\<lambda>i. i\<lparr>inp_value := inp_default i\<rparr>) (phoneInput p)"
    "subjectSelect (reset_click p) = map_option (\<lambda>s. s\<lparr>selectedIndex := sel_default s\<rparr>) (subjectSelect p)"
    "nameError (reset_click p) = map_option (\<lambda>t. []) (nameError p)"
    "emailError (reset_click p) = map_option (\<lambda>t. []) (emailError p)"
    "messageError (reset_click p) = map_option (\<lambda>t. []) (messageError p)"
    "contactForm_display (reset_click p) = js ''block''"
    "formSuccess (reset_click p) = map_option (\<lambda>d. js ''none'') (formSuccess p)"
    by (simp_all add: reset_click_def form_reset_def Let_def inp ph [symmetric])
qed

lemma error_of_reset_click: "error_of f (reset_click p) = map_option (\<lambda>t. []) (error_of f p)"
  by (cases f) (simp_all add: error_of_def reset_click_fields)

lemma validate_eq: "validate script = validateField"
  by (cases script) (auto simp: validate_def validateField_opt_eq fun_eq_iff)

lemma submit_unfold:
  assumes "nameInput p = Some n" "emailInput p = Some e" "messageInput p = Some m"
  shows "submit script p =
     (let vn = validateField n (nameError p) ''name'';
          ve = validateField e (emailError p) ''email'';
          vm = validateField m (messageError p) ''message'';
          p3 = p\<lparr>nameInput := Some (fst (snd vn)), nameError := snd (snd vn),
                   emailInput := Some (fst (snd ve)), emailError := snd (snd ve),
                   messageInput := Some (fst (snd vm)), messageError := snd (snd vm)\<rparr>
      in if fst vn \<and> fst ve \<and> fst vm
         then submit_valid script (fst (snd vn)) (fst (snd ve)) (fst (snd vm)) p3
         else (None, p3))"
  using assms by (simp add: submit_def validate_eq Let_def split: prod.splits)

text \<open>Without one of the three inputs the listener throws at the first validation that needs it.\<close>

lemma submit_missing_input:
  "nameInput p = None \<Longrightarrow> submit script p = (Some TypeError, p)"
  "nameInput p = Some n \<Longrightarrow> emailInput p = None \<Longrightarrow> fst (submit script p) = Some TypeError"
  "nameInput p = Some n \<Longrightarrow> emailInput p = Some e \<Longrightarrow> messageInput p = None
     \<Longrightarrow> fst (submit script p) = Some TypeError"
  by (simp_all add: submit_def Let_def split: prod.splits)

lemma invalid_failed:
  assumes "\<not> fst (validateField i e t)"
  shows "\<exists>msg. msg \<noteq> [] \<and> validateField i e t = failed i e msg"
proof -
  have ne: "js ''This field is required.'' \<noteq> []" "js ''Please enter a valid email address.'' \<noteq> []"
    "js ''Name must be at least 2 characters.'' \<noteq> []" "js ''Message must be at least 10 characters.'' \<noteq> []"
    by (simp_all add: js_def)
  from assms have "validateField i e t \<noteq> passed i e"
    by (auto simp: passed_def)
  then show ?thesis
    using ne unfolding validateField_cases [of i e t] by (auto split: if_splits)
qed

lemma jo_lookup:
  "nameInput jo_page = Some (blank_input\<lparr>inp_value := js ''Jo Smith''\<rparr>)"
  "emailInput jo_page = Some (blank_input\<lparr>inp_value := js ''jo@example.com''\<rparr>)"
  "messageInput jo_page = Some (blank_input\<lparr>inp_value := js ''Hello, I would like to order.''\<rparr>)"
  "nameError jo_page = Some []" "emailError jo_page = Some []" "messageError jo_page = Some []"
  "phoneInput jo_page = None" "subjectSelect jo_page = None"
  "submitBtn jo_page = Some \<lparr>btn_text = Some [], btn_loading = Some (js ''none''), disabled = False\<rparr>"
  "contactForm_display jo_page = []" "formSuccess jo_page = Some (js ''none'')"
  "timers jo_page = []" "opened jo_page = []" "body_children jo_page = []" "console jo_page = []"
  by (simp_all add: jo_page_def)

lemma short_name: "validateField (blank_input\<lparr>inp_value := js ''A''\<rparr>) (Some []) ''name''
    = (False, blank_input\<lparr>inp_value := js ''A'', inp_classes := {''error''}\<rparr>,
       Some (js ''Name must be at least 2 characters.''))"
proof -
  have "trim (js ''A'') = js ''A''"
    by (simp add: trim_def js_def ch_def isWhiteSpace_def)
  then show ?thesis
    by (simp add: validateField_cases failed_def blank_input_def) (simp add: js_def)
qed

lemma failed_lookup:
  "nameInput failed_page = Some \<lparr>inp_value = js ''A'', inp_default = [], inp_classes = {''error''}\<rparr>"
  "emailInput failed_page = Some (blank_input\<lparr>inp_value := js ''jo@example.com''\<rparr>)"
  "messageInput failed_page = Some (blank_input\<lparr>inp_value := js ''Hello, I would like to order.''\<rparr>)"
  "nameError failed_page = Some (js ''Name must be at least 2 characters.'')"
  "phoneInput failed_page = None"
  "formSuccess failed_page = Some (js ''block'')"
  by (simp_all add: failed_page_def jo_lookup)


text \<open>
  Claim C10, amended. An \<^verbatim>\<open>input\<close> event on the name, email or message field removes the class
  \<^verbatim>\<open>error\<close> from that field and changes nothing else on the page: every error message text,
  every value and the other fields' classes stay as they were. The message text of the field
  then stays as it is through every sequence of events up to the next blur of that field, the
  next submit or the next click on the reset control; that click empties the text.
\<close>

theorem input_removes_only_error_class:
  "error_of g (on_input f p) = error_of g p
   \<and> input_of f (on_input f p)
       = map_option (\<lambda>i. i\<lparr>inp_classes := inp_classes i - {''error''}\<rparr>) (input_of f p)
   \<and> (g \<noteq> f \<longrightarrow> input_of g (on_input f p) = input_of g p)
   \<and> phoneInput (on_input f p) = phoneInput p \<and> subjectSelect (on_input f p) = subjectSelect p
   \<and> submitBtn (on_input f p) = submitBtn p
   \<and> contactForm_display (on_input f p) = contactForm_display p
   \<and> formSuccess (on_input f p) = formSuccess p
   \<and> timers (on_input f p) = timers p \<and> opened (on_input f p) = opened p
   \<and> body_children (on_input f p) = body_children p \<and> console (on_input f p) = console p
   \<and> (list_all (\<lambda>ev. \<not> validates f ev \<and> ev \<noteq> ResetClick) evs \<longrightarrow>
        error_of f (handle_all script evs (on_input f p)) = error_of f p)
   \<and> error_of f (handle script ResetClick q) = map_option (\<lambda>t. []) (error_of f q)"
proof -
  have cls: "map_option remove_error_class x = map_option (\<lambda>i. i\<lparr>inp_classes := inp_classes i - {''error''}\<rparr>) x" for x
    by (cases x) (simp_all add: remove_error_class_def classList_remove_def)
  have a: "input_of f (on_input f p)
       = map_option (\<lambda>i. i\<lparr>inp_classes := inp_classes i - {''error''}\<rparr>) (input_of f p)"
    by (cases f) (simp_all add: input_of_def on_input_def cls)
  have b: "g \<noteq> f \<longrightarrow> input_of g (on_input f p) = input_of g p"
    by (cases f; cases g) (simp_all add: input_of_def on_input_def)
  have c: "phoneInput (on_input f p) = phoneInput p \<and> subjectSelect (on_input f p) = subjectSelect p
   \<and> submitBtn (on_input f p) = submitBtn p
   \<and> contactForm_display (on_input f p) = contactForm_display p
   \<and> formSuccess (on_input f p) = formSuccess p
   \<and> timers (on_input f p) = timers p \<and> opened (on_input f p) = opened p
   \<and> body_children (on_input f p) = body_children p \<and> console (on_input f p) = console p"
    by (cases f) (simp_all add: on_input_def)
  have d: "list_all (\<lambda>ev. \<not> validates f ev \<and> ev \<noteq> ResetClick) evs \<longrightarrow>
        error_of f (handle_all script evs (on_input f p)) = error_of f p"
    by (simp add: error_of_handle_all error_of_on_input)
  have e: "error_of f (handle script ResetClick q) = map_option (\<lambda>t. []) (error_of f q)"
    by (simp add: handle_def error_of_reset_click)
  from a b c d e show ?thesis
    by (simp add: error_of_on_input)
qed


theorem input_removes_only_error_class_witness:
  "nameError (on_input Name failed_page) = Some (js ''Name must be at least 2 characters.'')
   \<and> nameInput (on_input Name failed_page) = Some \<lparr>inp_value = js ''A'', inp_default = [], inp_classes = {}\<rparr>
   \<and> nameError (handle_all Original [Input Email, Blur Email, Input Name, TimerFires] (on_input Name failed_page))
       = Some (js ''Name must be at least 2 characters.'')"
proof -
  have evs: "list_all (\<lambda>ev. \<not> validates Name ev \<and> ev \<noteq> ResetClick) [Input Email, Blur Email, Input Name, TimerFires]"
    by (simp add: validates_def)
  show ?thesis
    using input_removes_only_error_class
      [of Name Name failed_page "[Input Email, Blur Email, Input Name, TimerFires]" Original] evs
    by (simp add: error_of_def input_of_def failed_lookup)
qed

text \<open>
  Claim C10 as stated fails: a click on the reset control is neither a blur of the name field
  nor a submit, yet after it the message text that the failed validation had set is gone, in
  both scripts.
\<close>

theorem reset_click_empties_error_text:
  "\<not> validates Name ResetClick
   \<and> error_of Name (on_input Name failed_page) = Some (js ''Name must be at least 2 characters.'')
   \<and> error_of Name (handle_all Original [ResetClick] (on_input Name failed_page)) = Some []
   \<and> error_of Name (handle_all Optimized [ResetClick] (on_input Name failed_page)) = Some []"
  by (simp add: validates_def handle_def error_of_reset_click error_of_on_input)
    (simp add: error_of_def failed_lookup)


text \<open>
  Claim C3. On a page that has the three required inputs, a submit event validates all three
  fields; when at least one of them is invalid the listener returns normally and leaves the
  page as the three validations left it: no timer is set, no window is opened, nothing is
  appended or logged, the display of the form and of the success panel, the submit button
  and the optional controls are unchanged, and every invalid field carries the class
  \<^verbatim>\<open>error\<close> with its message shown in its message element.
\<close>

theorem invalid_submit_aborts:
  assumes "nameInput p = Some n" and "emailInput p = Some e" and "messageInput p = Some m"
    and "\<not> (fst (validate script n (nameError p) ''name'')
            \<and> fst (validate script e (emailError p) ''email'')
            \<and> fst (validate script m (messageError p) ''message''))"
  shows "fst (submit script p) = None
    \<and> (nameInput (snd (submit script p)), nameError (snd (submit script p)))
        = map_prod Some id (snd (validate script n (nameError p) ''name''))
    \<and> (emailInput (snd (submit script p)), emailError (snd (submit script p)))
        = map_prod Some id (snd (validate script e (emailError p) ''email''))
    \<and> (messageInput (snd (submit script p)), messageError (snd (submit script p)))
        = map_prod Some id (snd (validate script m (messageError p) ''message''))
    \<and> timers (snd (submit script p)) = timers p
    \<and> opened (snd (submit script p)) = opened p
    \<and> body_children (snd (submit script p)) = body_children p
    \<and> console (snd (submit script p)) = console p
    \<and> contactForm_display (snd (submit script p)) = contactForm_display p
    \<and> formSuccess (snd (submit script p)) = formSuccess p
    \<and> submitBtn (snd (submit script p)) = submitBtn p
    \<and> phoneInput (snd (submit script p)) = phoneInput p
    \<and> subjectSelect (snd (submit script p)) = subjectSelect p
    \<and> (\<not> fst (validate script n (nameError p) ''name'') \<longrightarrow>
         (\<exists>msg. msg \<noteq> []
            \<and> nameInput (snd (submit script p)) = Some (n\<lparr>inp_classes := insert ''error'' (inp_classes n)\<rparr>)
            \<and> nameError (snd (submit script p)) = map_option (\<lambda>t. msg) (nameError p)))
    \<and> (\<not> fst (validate script e (emailError p) ''email'') \<longrightarrow>
         (\<exists>msg. msg \<noteq> []
            \<and> emailInput (snd (submit script p)) = Some (e\<lparr>inp_classes := insert ''error'' (inp_classes e)\<rparr>)
            \<and> emailError (snd (submit script p)) = map_option (\<lambda>t. msg) (emailError p)))
    \<and> (\<not> fst (validate script m (messageError p) ''message'') \<longrightarrow>
         (\<exists>msg. msg \<noteq> []
            \<and> messageInput (snd (submit script p)) = Some (m\<lparr>inp_classes := insert ''error'' (inp_classes m)\<rparr>)
            \<and> messageError (snd (submit script p)) = map_option (\<lambda>t. msg) (messageError p)))"
proof -
  let ?vn = "validateField n (nameError p) ''name''"
  let ?ve = "validateField e (emailError p) ''email''"
  let ?vm = "validateField m (messageError p) ''message''"
  let ?p3 = "p\<lparr>nameInput := Some (fst (snd ?vn)), nameError := snd (snd ?vn),
                emailInput := Some (fst (snd ?ve)), emailError := snd (snd ?ve),
                messageInput := Some (fst (snd ?vm)), messageError := snd (snd ?vm)\<rparr>"
  from assms(4) have inv: "\<not> (fst ?vn \<and> fst ?ve \<and> fst ?vm)"
    by (simp add: validate_eq)
  have sub: "submit script p = (None, ?p3)"
    using inv unfolding submit_unfold [OF assms(1-3)] Let_def by (simp only: if_False)
  have frame: "fst (submit script p) = None"
    "nameInput (snd (submit script p)) = Some (fst (snd ?vn))" "nameError (snd (submit script p)) = snd (snd ?vn)"
    "emailInput (snd (submit script p)) = Some (fst (snd ?ve))" "emailError (snd (submit script p)) = snd (snd ?ve)"
    "messageInput (snd (submit script p)) = Some (fst (snd ?vm))" "messageError (snd (submit script p)) = snd (snd ?vm)"
    "timers (snd (submit script p)) = timers p"
    "opened (snd (submit script p)) = opened p"
    "body_children (snd (submit script p)) = body_children p"
    "console (snd (submit script p)) = console p"
    "contactForm_display (snd (submit script p)) = contactForm_display p"
    "formSuccess (snd (submit script p)) = formSuccess p"
    "submitBtn (snd (submit script p)) = submitBtn p"
    "phoneInput (snd (submit script p)) = phoneInput p"
    "subjectSelect (snd (submit script p)) = subjectSelect p"
    unfolding sub by simp_all
  have shown: "\<exists>msg. msg \<noteq> [] \<and> Some (fst (snd (validateField i el t))) = Some (i\<lparr>inp_classes := insert ''error'' (inp_classes i)\<rparr>)
      \<and> snd (snd (validateField i el t)) = map_option (\<lambda>t. msg) el"
    if "\<not> fst (validateField i el t)" for i el t
    using invalid_failed [OF that] by (auto simp: failed_def)
  show ?thesis
    unfolding frame validate_eq
    by (intro conjI impI shown) (simp_all add: map_prod_def split: prod.splits)
qed


theorem invalid_submit_aborts_witness:
  "fst (submit Original (jo_page\<lparr>nameInput := Some (blank_input\<lparr>inp_value := js ''A''\<rparr>)\<rparr>)) = None
   \<and> timers (snd (submit Original (jo_page\<lparr>nameInput := Some (blank_input\<lparr>inp_value := js ''A''\<rparr>)\<rparr>))) = []
   \<and> opened (snd (submit Original (jo_page\<lparr>nameInput := Some (blank_input\<lparr>inp_value := js ''A''\<rparr>)\<rparr>))) = []
   \<and> nameError (snd (submit Original (jo_page\<lparr>nameInput := Some (blank_input\<lparr>inp_value := js ''A''\<rparr>)\<rparr>)))
       = Some (js ''Name must be at least 2 characters.'')"
proof -
  let ?p = "jo_page\<lparr>nameInput := Some (blank_input\<lparr>inp_value := js ''A''\<rparr>)\<rparr>"
  have look: "nameInput ?p = Some (blank_input\<lparr>inp_value := js ''A''\<rparr>)"
    "emailInput ?p = Some (blank_input\<lparr>inp_value := js ''jo@example.com''\<rparr>)"
    "messageInput ?p = Some (blank_input\<lparr>inp_value := js ''Hello, I would like to order.''\<rparr>)"
    "nameError ?p = Some []" "timers ?p = []" "opened ?p = []"
    by (simp_all add: jo_lookup)
  have inv: "\<not> (fst (validate Original (blank_input\<lparr>inp_value := js ''A''\<rparr>) (nameError ?p) ''name'')
       \<and> fst (validate Original (blank_input\<lparr>inp_value := js ''jo@example.com''\<rparr>) (emailError ?p) ''email'')
       \<and> fst (validate Original (blank_input\<lparr>inp_value := js ''Hello, I would like to order.''\<rparr>)
             (messageError ?p) ''message''))"
    by (simp add: validate_def look short_name)
  show ?thesis
    using invalid_submit_aborts [OF look(1) look(2) look(3) inv]
    by (simp add: look validate_def short_name)
qed


text \<open>
  Claim C8, amended. Whatever the page was, a click on the reset control leaves every control
  of the form at its default from the markup (each text input at its default value, the
  subject select at its default option), the three required inputs without the class
  \<^verbatim>\<open>error\<close>, the three message elements empty, the form displayed (\<^verbatim>\<open>block\<close>) and the success
  panel hidden (\<^verbatim>\<open>none\<close>). The field values are all empty afterwards exactly when the markup
  gives no control a default value.
\<close>

theorem reset_restores_empty_form:
  "nameInput (reset_click p)
     = map_option (\<lambda>i. i\<lparr>inp_value := inp_default i, inp_classes := inp_classes i - {''error''}\<rparr>) (nameInput p)
   \<and> emailInput (reset_click p)
     = map_option (\<lambda>i. i\<lparr>inp_value := inp_default i, inp_classes := inp_classes i - {''error''}\<rparr>) (emailInput p)
   \<and> messageInput (reset_click p)
     = map_option (\<lambda>i. i\<lparr>inp_value := inp_default i, inp_classes := inp_classes i - {''error''}\<rparr>) (messageInput p)
   \<and> phoneInput (reset_click p) = map_option (\<lambda>i. i\<lparr>inp_value := inp_default i\<rparr>) (phoneInput p)
   \<and> subjectSelect (reset_click p) = map_option (\<lambda>s. s\<lparr>selectedIndex := sel_default s\<rparr>) (subjectSelect p)
   \<and> nameError (reset_click p) = map_option (\<lambda>t. []) (nameError p)
   \<and> emailError (reset_click p) = map_option (\<lambda>t. []) (emailError p)
   \<and> messageError (reset_click p) = map_option (\<lambda>t. []) (messageError p)
   \<and> contactForm_display (reset_click p) = js ''block''
   \<and> formSuccess (reset_click p) = map_option (\<lambda>d. js ''none'') (formSuccess p)
   \<and> values_cleared (reset_click p) = defaults_blank p
   \<and> (defaults_blank p \<longrightarrow>
        (\<forall>f i. input_of f (reset_click p) = Some i \<longrightarrow> inp_value i = [])
        \<and> (\<forall>i. phoneInput (reset_click p) = Some i \<longrightarrow> inp_value i = [])
        \<and> (\<forall>s. subjectSelect (reset_click p) = Some s \<longrightarrow> select_value s = []))
   \<and> (\<forall>f i. input_of f (reset_click p) = Some i \<longrightarrow> ''error'' \<notin> inp_classes i)
   \<and> (\<forall>f t. error_of f (reset_click p) = Some t \<longrightarrow> t = [])"
proof -
  note fields = reset_click_fields [of p]
  have iff: "values_cleared (reset_click p) = defaults_blank p"
    by (simp add: values_cleared_def defaults_blank_def fields option.case_eq_if option.map_sel)
  have cleared: "inp_value i = []" if "defaults_blank p" "input_of f (reset_click p) = Some i" for f i
    using that by (cases f) (auto simp: input_of_def fields defaults_blank_def)
  have phone: "inp_value i = []" if "defaults_blank p" "phoneInput (reset_click p) = Some i" for i
    using that by (auto simp: fields defaults_blank_def)
  have subject: "select_value s = []" if "defaults_blank p" "subjectSelect (reset_click p) = Some s" for s
    using that by (auto simp: fields defaults_blank_def)
  have classes: "''error'' \<notin> inp_classes i" if "input_of f (reset_click p) = Some i" for f i
    using that by (cases f) (auto simp: input_of_def fields)
  have texts: "t = []" if "error_of f (reset_click p) = Some t" for f t
    using that by (cases f) (auto simp: error_of_def fields)
  from cleared phone subject have blank: "defaults_blank p \<longrightarrow>
        (\<forall>f i. input_of f (reset_click p) = Some i \<longrightarrow> inp_value i = [])
        \<and> (\<forall>i. phoneInput (reset_click p) = Some i \<longrightarrow> inp_value i = [])
        \<and> (\<forall>s. subjectSelect (reset_click p) = Some s \<longrightarrow> select_value s = [])"
    by blast
  from classes have plain: "\<forall>f i. input_of f (reset_click p) = Some i \<longrightarrow> ''error'' \<notin> inp_classes i"
    by blast
  from texts have empty: "\<forall>f t. error_of f (reset_click p) = Some t \<longrightarrow> t = []"
    by blast
  show ?thesis
    by (intro conjI fields iff blank plain empty)
qed

lemma filled_lookup:
  "nameInput filled_page = Some \<lparr>inp_value = js ''A'', inp_default = [], inp_classes = {''error''}\<rparr>"
  "emailInput filled_page = Some (blank_input\<lparr>inp_value := js ''jo@example.com''\<rparr>)"
  "messageInput filled_page = Some (blank_input\<lparr>inp_value := js ''Hello, I would like to order.''\<rparr>)"
  "phoneInput filled_page = Some (blank_input\<lparr>inp_value := js ''12345''\<rparr>)"
  "subjectSelect filled_page
     = Some \<lparr>sel_options = [\<lparr>opt_value = [], opt_text = js ''Select a subject''\<rparr>,
                            \<lparr>opt_value = js ''general'', opt_text = js ''General Inquiry''\<rparr>],
             selectedIndex = 1, sel_default = 0\<rparr>"
  "nameError filled_page = Some (js ''Name must be at least 2 characters.'')"
  "formSuccess filled_page = Some (js ''block'')"
  by (simp_all add: filled_page_def failed_lookup)

lemma prefilled_lookup:
  "nameInput prefilled_page = Some \<lparr>inp_value = js ''A'', inp_default = js ''Jane'', inp_classes = {''error''}\<rparr>"
  "subjectSelect prefilled_page
     = Some \<lparr>sel_options = [\<lparr>opt_value = js ''general'', opt_text = js ''General Inquiry''\<rparr>,
                            \<lparr>opt_value = js ''order'', opt_text = js ''Order''\<rparr>],
             selectedIndex = 1, sel_default = 0\<rparr>"
  by (simp_all add: prefilled_page_def)


theorem reset_restores_empty_form_witness:
  "defaults_blank filled_page
   \<and> values_cleared (reset_click filled_page)
   \<and> nameInput (reset_click filled_page) = Some blank_input
   \<and> phoneInput (reset_click filled_page) = Some blank_input
   \<and> map_option select_value (subjectSelect filled_page) = Some (js ''general'')
   \<and> map_option select_value (subjectSelect (reset_click filled_page)) = Some []
   \<and> nameError (reset_click filled_page) = Some []
   \<and> contactForm_display (reset_click filled_page) = js ''block''
   \<and> formSuccess (reset_click filled_page) = Some (js ''none'')"
proof -
  have d: "defaults_blank filled_page"
    by (simp add: defaults_blank_def filled_lookup blank_input_def select_value_def selected_option_def)
  note r = reset_restores_empty_form [of filled_page]
  from r d have v: "values_cleared (reset_click filled_page)"
    by blast
  from r have n: "nameInput (reset_click filled_page) = Some blank_input"
    "phoneInput (reset_click filled_page) = Some blank_input"
    by (simp_all add: filled_lookup blank_input_def)
  from r have s: "map_option select_value (subjectSelect (reset_click filled_page)) = Some []"
    by (simp add: filled_lookup select_value_def selected_option_def)
  have s0: "map_option select_value (subjectSelect filled_page) = Some (js ''general'')"
    by (simp add: filled_lookup select_value_def selected_option_def)
  from r d v n s s0 show ?thesis
    by (simp add: filled_lookup)
qed

text \<open>
  Claim C8 as stated fails: on a page whose markup prefills the name with \<^verbatim>\<open>Jane\<close> and whose
  select has no blank-valued option, the reset leaves the name \<^verbatim>\<open>Jane\<close> and the subject
  \<^verbatim>\<open>general\<close>, not empty values.
\<close>

theorem reset_keeps_markup_defaults:
  "map_option inp_value (nameInput prefilled_page) = Some (js ''A'')
   \<and> map_option inp_value (nameInput (reset_click prefilled_page)) = Some (js ''Jane'')
   \<and> map_option select_value (subjectSelect prefilled_page) = Some (js ''order'')
   \<and> map_option select_value (subjectSelect (reset_click prefilled_page)) = Some (js ''general'')
   \<and> js ''Jane'' \<noteq> [] \<and> js ''general'' \<noteq> []
   \<and> \<not> values_cleared (reset_click prefilled_page)"
proof -
  have a: "map_option inp_value (nameInput (reset_click prefilled_page)) = Some (js ''Jane'')"
    "map_option select_value (subjectSelect (reset_click prefilled_page)) = Some (js ''general'')"
    "map_option select_value (subjectSelect prefilled_page) = Some (js ''order'')"
    by (simp_all add: reset_click_fields prefilled_lookup select_value_def selected_option_def)
  have ne: "js ''Jane'' \<noteq> []" "js ''general'' \<noteq> []"
    by (simp_all add: js_def)
  have "\<not> values_cleared (reset_click prefilled_page)"
    using ne by (simp add: values_cleared_def reset_click_fields prefilled_lookup)
  with a ne show ?thesis
    by (simp add: prefilled_lookup)
qed

subsection \<open>Contact form: the deep link of a valid submission\<close>

lemma unat_ch: "unat (ch c) = of_char c"
proof -
  have "ch c = of_nat (of_char c)"
    by (simp add: ch_def of_nat_of_char)
  moreover have "(of_char c :: nat) < 2 ^ LENGTH(16)"
    by (rule less_trans [OF nat_of_char_less_256]) simp
  ultimately show ?thesis
    by (simp add: of_nat_inverse)
qed

lemma ch_inj: "(ch a = ch b) = (a = b)"
proof
  assume "ch a = ch b"
  then have "(of_char a :: nat) = of_char b"
    by (simp flip: unat_ch)
  then show "a = b"
    using inj_of_char [where ?'a = nat] by (auto dest: injD)
qed simp

lemma js_no_percent: "CHR ''%'' \<notin> set s \<Longrightarrow> list_all (\<lambda>c. c \<noteq> ch CHR ''%'') (js s)"
  by (induction s) (auto simp: js_def ch_inj)

lemma heading_no_percent: "list_all (\<lambda>c. c \<noteq> ch CHR ''%'') heading"
  by (simp add: heading_def js_no_percent) (simp add: ch_def)

lemma Decode_literal_end: "list_all (\<lambda>c. c \<noteq> ch CHR ''%'') lit \<Longrightarrow> Decode lit = Inr lit"
  using Decode_literal [of lit "[]"] by simp

lemma Decode_js: "CHR ''%'' \<notin> set s \<Longrightarrow> Decode (js s @ rest) = prepend (js s) (Decode rest)"
  by (simp add: Decode_literal js_no_percent)

lemma Decode_heading: "Decode (heading @ rest) = prepend heading (Decode rest)"
  by (simp add: Decode_literal heading_no_percent)

lemma whatsappMessage_decodes:
  assumes "wellFormed (fd_name fd)" "wellFormed (fd_email fd)" "wellFormed (fd_phone fd)"
    "wellFormed label" "wellFormed (fd_message fd)"
  shows "\<exists>payload. whatsappMessage fd label = Inr payload
     \<and> decodeURIComponent payload
         = Inr (enquiry_text (fd_name fd) (fd_email fd) (fd_phone fd) label (fd_message fd))"
proof -
  from assms obtain en ee ep es em where
    enc: "Encode (fd_name fd) = Inr en" "Encode (fd_email fd) = Inr ee" "Encode (fd_phone fd) = Inr ep"
      "Encode label = Inr es" "Encode (fd_message fd) = Inr em"
    unfolding Encode_wellFormed [symmetric] by blast
  let ?nl = "js ''%0A''"
  let ?payload = "js ''*'' @ heading @ js ''*'' @ ?nl @ ?nl @ js ''*Name:* '' @ en @ ?nl
     @ js ''*Email:* '' @ ee @ ?nl @ js ''*Phone:* '' @ ep @ ?nl @ js ''*Subject:* '' @ es @ ?nl @ ?nl
     @ js ''*Message:*'' @ ?nl @ em @ ?nl @ ?nl
     @ js ''_Sent from Freshflow Foods website contact form._''"
  have lits: "js ''*%0A%0A*Name:* '' = js ''*'' @ ?nl @ ?nl @ js ''*Name:* ''"
    "js ''%0A*Email:* '' = ?nl @ js ''*Email:* ''"
    "js ''%0A*Phone:* '' = ?nl @ js ''*Phone:* ''"
    "js ''%0A*Subject:* '' = ?nl @ js ''*Subject:* ''"
    "js ''%0A%0A*Message:*%0A'' = ?nl @ ?nl @ js ''*Message:*'' @ ?nl"
    "js ''%0A%0A_Sent from Freshflow Foods website contact form._''
       = ?nl @ ?nl @ js ''_Sent from Freshflow Foods website contact form._''"
    by (simp_all add: js_def)
  have msg: "whatsappMessage fd label = Inr ?payload"
    by (simp add: whatsappMessage_def encodeURIComponent_def enc lits)
  have last: "Decode (js ''_Sent from Freshflow Foods website contact form._'')
      = Inr (js ''_Sent from Freshflow Foods website contact form._'')"
    by (rule Decode_literal_end) (simp add: js_no_percent)
  have "Decode ?payload
      = Inr (enquiry_text (fd_name fd) (fd_email fd) (fd_phone fd) label (fd_message fd))"
    by (simp add: Decode_js Decode_heading Decode_newline Decode_Encode [OF enc(1)]
        Decode_Encode [OF enc(2)] Decode_Encode [OF enc(3)] Decode_Encode [OF enc(4)]
        Decode_Encode [OF enc(5)] last enquiry_text_def)
  with msg show ?thesis
    by (simp add: decodeURIComponent_def)
qed


lemma validateField_value: "inp_value (fst (snd (validateField i e t))) = inp_value i"
  by (simp add: validateField_cases failed_def passed_def)

lemma not_surrogate_ch: "\<not> isTrailSurrogate (ch c) \<and> \<not> isLeadSurrogate (ch c)"
proof -
  have "unat (ch c) < 256"
    by (simp add: unat_ch)
  then show ?thesis
    by (auto simp: isTrailSurrogate_def isLeadSurrogate_def word_le_nat_alt)
qed

lemma wellFormed_append: "wellFormed a \<Longrightarrow> wellFormed b \<Longrightarrow> wellFormed (a @ b)"
  by (induction a rule: wellFormed.induct) (auto split: list.splits if_splits)

lemma wellFormed_js: "wellFormed (js s)"
  by (induction s) (simp_all add: js_def not_surrogate_ch)

lemma wellFormed_heading: "wellFormed heading"
  by (simp add: heading_def wellFormed_append wellFormed_js isTrailSurrogate_def isLeadSurrogate_def)

lemma wellFormed_newline: "wellFormed [0x0A]" "wellFormed [0x0A, 0x0A]"
  by (simp_all add: isTrailSurrogate_def isLeadSurrogate_def)

lemma emailSubject_encodes: "wellFormed label \<Longrightarrow> \<exists>subj. emailSubject label = Inr subj"
  unfolding emailSubject_def encodeURIComponent_def Encode_wellFormed
  by (intro wellFormed_append wellFormed_heading wellFormed_js)

lemma emailBody_encodes:
  assumes "wellFormed (fd_name fd)" "wellFormed (fd_email fd)" "wellFormed (fd_phone fd)"
    "wellFormed label" "wellFormed (fd_message fd)"
  shows "\<exists>body. emailBody fd label = Inr body"
  unfolding emailBody_def encodeURIComponent_def Encode_wellFormed
  by (intro wellFormed_append wellFormed_heading wellFormed_js wellFormed_newline assms)

lemma show_loading_complete:
  "btn_text b \<noteq> None \<Longrightarrow> btn_loading b \<noteq> None \<Longrightarrow> fst (show_loading b) = None"
  by (auto simp: show_loading_def Let_def)

lemma on_button_complete: "button_complete p \<Longrightarrow> fst (on_button show_loading p) = None"
proof (cases "submitBtn p")
  case None
  then show ?thesis by (simp add: on_button_def)
next
  case (Some b)
  assume "button_complete p"
  with Some have "fst (show_loading b) = None"
    by (simp add: button_complete_def show_loading_complete)
  with Some show ?thesis
    by (cases "show_loading b") (simp add: on_button_def)
qed

lemma subjectLabel_shown: "subject_shown p = Some label \<Longrightarrow> subjectLabel p = Inr label"
  by (auto simp: subject_shown_def subjectLabel_def split: option.splits)



lemma subject_label_of_selection:
  "subjectSelect p = Some s \<Longrightarrow> selected_option s = Some opt \<Longrightarrow> subject_shown p = Some (opt_text opt)"
  by (simp add: subject_shown_def)


lemma gather_fields:
  "fd_name (gather n e m p) = trim (inp_value n)"
  "fd_email (gather n e m p) = trim (inp_value e)"
  "fd_message (gather n e m p) = trim (inp_value m)"
  "fd_phone (gather n e m p) = phone_shown p"
  by (simp_all add: gather_def phone_shown_def js_or_def split: option.splits)

lemma gather_subject_default:
  "subjectSelect p = None \<Longrightarrow> fd_subject (gather n e m p) = js ''General Inquiry''"
  "subjectSelect p = Some s \<Longrightarrow> select_value s = [] \<Longrightarrow> fd_subject (gather n e m p) = js ''General Inquiry''"
  by (simp_all add: gather_def js_or_def)

lemma build_task_link:
  assumes "subject_shown p = Some label"
    and "wellFormed (trim (inp_value n))" "wellFormed (trim (inp_value e))" "wellFormed (trim (inp_value m))"
    and "wellFormed (phone_shown p)" "wellFormed label"
  shows "\<exists>payload subj body.
       build_task script (gather n e m p) p
         = Inr (case script of
                  Original \<Rightarrow> SubmitDone (whatsappUrl payload) (mailtoUrl subj body) (gather n e m p)
                | Optimized \<Rightarrow> SubmitDone_opt (whatsappUrl payload))
     \<and> decodeURIComponent payload
         = Inr (enquiry_text (trim (inp_value n)) (trim (inp_value e)) (phone_shown p) label (trim (inp_value m)))"
proof -
  let ?fd = "gather n e m p"
  have wf: "wellFormed (fd_name ?fd)" "wellFormed (fd_email ?fd)" "wellFormed (fd_phone ?fd)"
    "wellFormed label" "wellFormed (fd_message ?fd)"
    using assms by (simp_all add: gather_fields)
  from whatsappMessage_decodes [OF wf] obtain payload where
    payload: "whatsappMessage ?fd label = Inr payload"
      "decodeURIComponent payload
         = Inr (enquiry_text (trim (inp_value n)) (trim (inp_value e)) (phone_shown p) label (trim (inp_value m)))"
    by (auto simp: gather_fields)
  obtain subj body where mail: "emailSubject label = Inr subj" "emailBody ?fd label = Inr body"
    using emailSubject_encodes [OF wf(4)] emailBody_encodes [OF wf] by blast
  have "build_task script ?fd p
         = Inr (case script of
                  Original \<Rightarrow> SubmitDone (whatsappUrl payload) (mailtoUrl subj body) ?fd
                | Optimized \<Rightarrow> SubmitDone_opt (whatsappUrl payload))"
    by (cases script) (simp_all add: build_task_def subjectLabel_shown [OF assms(1)] payload(1) mail)
  with payload(2) show ?thesis by blast
qed

lemma on_button_keeps:
  "subject_shown (snd (on_button h p)) = subject_shown p"
  "phone_shown (snd (on_button h p)) = phone_shown p"
  "timers (snd (on_button h p)) = timers p"
  "gather n e m (snd (on_button h p)) = gather n e m p"
  "opened (snd (on_button h p)) = opened p"
  "body_children (snd (on_button h p)) = body_children p"
  by (subst on_button_frame, simp add: subject_shown_def phone_shown_def gather_def)+

lemma submit_valid_link:
  assumes "button_complete p" "subject_shown p = Some label"
    and "wellFormed (trim (inp_value n))" "wellFormed (trim (inp_value e))" "wellFormed (trim (inp_value m))"
    and "wellFormed (phone_shown p)" "wellFormed label"
  shows "\<exists>payload subj body. fst (submit_valid script n e m p) = None
     \<and> timers (snd (submit_valid script n e m p))
         = timers p @ [(1000, case script of
                  Original \<Rightarrow> SubmitDone (whatsappUrl payload) (mailtoUrl subj body) (gather n e m p)
                | Optimized \<Rightarrow> SubmitDone_opt (whatsappUrl payload))]
     \<and> opened (snd (submit_valid script n e m p)) = opened p
     \<and> body_children (snd (submit_valid script n e m p)) = body_children p
     \<and> decodeURIComponent payload
         = Inr (enquiry_text (trim (inp_value n)) (trim (inp_value e)) (phone_shown p) label (trim (inp_value m)))"
proof -
  obtain p1 where p1: "on_button show_loading p = (None, p1)"
    using on_button_complete [OF assms(1)] by (cases "on_button show_loading p") auto
  then have p1': "p1 = snd (on_button show_loading p)" by simp
  have keep: "subject_shown p1 = Some label" "phone_shown p1 = phone_shown p" "timers p1 = timers p"
    "gather n e m p1 = gather n e m p" "opened p1 = opened p" "body_children p1 = body_children p"
    by (simp_all add: p1' on_button_keeps assms(2))
  have wfp: "wellFormed (phone_shown p1)"
    using assms(6) keep(2) by simp
  from build_task_link [OF keep(1) assms(3) assms(4) assms(5) wfp assms(7), of script]
  obtain payload subj body where t0: "build_task script (gather n e m p1) p1
         = Inr (case script of
                  Original \<Rightarrow> SubmitDone (whatsappUrl payload) (mailtoUrl subj body) (gather n e m p1)
                | Optimized \<Rightarrow> SubmitDone_opt (whatsappUrl payload))"
    "decodeURIComponent payload
         = Inr (enquiry_text (trim (inp_value n)) (trim (inp_value e)) (phone_shown p1) label (trim (inp_value m)))"
    by blast
  have t: "build_task script (gather n e m p) p1
         = Inr (case script of
                  Original \<Rightarrow> SubmitDone (whatsappUrl payload) (mailtoUrl subj body) (gather n e m p)
                | Optimized \<Rightarrow> SubmitDone_opt (whatsappUrl payload))"
    "decodeURIComponent payload
         = Inr (enquiry_text (trim (inp_value n)) (trim (inp_value e)) (phone_shown p) label (trim (inp_value m)))"
    using t0 by (simp_all only: keep)
  have "submit_valid script n e m p = (None, p1\<lparr>timers := timers p1 @ [(1000, case script of
                  Original \<Rightarrow> SubmitDone (whatsappUrl payload) (mailtoUrl subj body) (gather n e m p)
                | Optimized \<Rightarrow> SubmitDone_opt (whatsappUrl payload))]\<rparr>)"
    by (simp add: submit_valid_def p1 keep(4) t(1))
  then have "fst (submit_valid script n e m p) = None
     \<and> timers (snd (submit_valid script n e m p))
         = timers p @ [(1000, case script of
                  Original \<Rightarrow> SubmitDone (whatsappUrl payload) (mailtoUrl subj body) (gather n e m p)
                | Optimized \<Rightarrow> SubmitDone_opt (whatsappUrl payload))]
     \<and> opened (snd (submit_valid script n e m p)) = opened p
     \<and> body_children (snd (submit_valid script n e m p)) = body_children p"
    by (simp add: keep(3) keep(5) keep(6))
  with t(2) show ?thesis by blast
qed


lemma run_task_opens:
  "opened (snd (run_task task q)) = opened q @ [(task_url task, js ''_blank'')]"
proof (cases task)
  case (SubmitDone url mailto formData)
  have "opened (snd (on_button h r)) = opened r" for h r
    by (subst on_button_frame) simp
  then show ?thesis
    unfolding SubmitDone run_task.simps Let_def snd_case_outcome
    by (simp add: task_url_def)
next
  case (SubmitDone_opt url)
  have "opened (snd (on_button h r)) = opened r" for h r
    by (subst on_button_frame) simp
  then show ?thesis
    unfolding SubmitDone_opt run_task.simps Let_def
    by (simp add: task_url_def)
qed

lemma run_task_appends:
  "body_children (snd (run_task (SubmitDone url mailto formData) q))
     = body_children q @ [\<lparr>href = mailto, anchor_display = js ''none''\<rparr>]"
  "body_children (snd (run_task (SubmitDone_opt url) q)) = body_children q"
proof -
  have b: "body_children (snd (on_button h r)) = body_children r" for h r
    by (subst on_button_frame) simp
  show "body_children (snd (run_task (SubmitDone url mailto formData) q))
     = body_children q @ [\<lparr>href = mailto, anchor_display = js ''none''\<rparr>]"
    unfolding run_task.simps Let_def snd_case_outcome by (simp add: b)
  show "body_children (snd (run_task (SubmitDone_opt url) q)) = body_children q"
    unfolding run_task.simps Let_def by (simp add: b)
qed


lemma submit_valid_unfold:
  assumes "nameInput p = Some n" "emailInput p = Some e" "messageInput p = Some m"
    and "fst (validate script n (nameError p) ''name'')"
    and "fst (validate script e (emailError p) ''email'')"
    and "fst (validate script m (messageError p) ''message'')"
  shows "submit script p =
      submit_valid script (fst (snd (validateField n (nameError p) ''name'')))
        (fst (snd (validateField e (emailError p) ''email'')))
        (fst (snd (validateField m (messageError p) ''message'')))
        (p\<lparr>nameInput := Some (fst (snd (validateField n (nameError p) ''name''))),
           nameError := snd (snd (validateField n (nameError p) ''name'')),
           emailInput := Some (fst (snd (validateField e (emailError p) ''email''))),
           emailError := snd (snd (validateField e (emailError p) ''email'')),
           messageInput := Some (fst (snd (validateField m (messageError p) ''message''))),
           messageError := snd (snd (validateField m (messageError p) ''message''))\<rparr>)"
  using assms(4-6) unfolding submit_unfold [OF assms(1-3)] validate_eq Let_def
  by simp

lemma valid_submit_task:
  assumes "nameInput p = Some n" and "emailInput p = Some e" and "messageInput p = Some m"
    and "fst (validate script n (nameError p) ''name'')"
    and "fst (validate script e (emailError p) ''email'')"
    and "fst (validate script m (messageError p) ''message'')"
    and "button_complete p" and "subject_shown p = Some label"
    and "wellFormed (trim (inp_value n))" and "wellFormed (trim (inp_value e))"
    and "wellFormed (trim (inp_value m))" and "wellFormed (phone_shown p)" and "wellFormed label"
  shows "\<exists>payload subj body formData.
      fst (submit script p) = None
      \<and> timers (snd (submit script p))
          = timers p @ [(1000, case script of
                  Original \<Rightarrow> SubmitDone (whatsappUrl payload) (mailtoUrl subj body) formData
                | Optimized \<Rightarrow> SubmitDone_opt (whatsappUrl payload))]
      \<and> opened (snd (submit script p)) = opened p
      \<and> body_children (snd (submit script p)) = body_children p
      \<and> decodeURIComponent payload
          = Inr (enquiry_text (trim (inp_value n)) (trim (inp_value e)) (phone_shown p) label (trim (inp_value m)))"
proof -
  define n' where "n' = fst (snd (validateField n (nameError p) ''name''))"
  define e' where "e' = fst (snd (validateField e (emailError p) ''email''))"
  define m' where "m' = fst (snd (validateField m (messageError p) ''message''))"
  define ne where "ne = snd (snd (validateField n (nameError p) ''name''))"
  define ee where "ee = snd (snd (validateField e (emailError p) ''email''))"
  define me where "me = snd (snd (validateField m (messageError p) ''message''))"
  let ?p3 = "p\<lparr>nameInput := Some n', nameError := ne, emailInput := Some e', emailError := ee,
           messageInput := Some m', messageError := me\<rparr>"
  have sub: "submit script p = submit_valid script n' e' m' ?p3"
    unfolding n'_def e'_def m'_def ne_def ee_def me_def by (rule submit_valid_unfold [OF assms(1-6)])
  have vals: "inp_value n' = inp_value n" "inp_value e' = inp_value e" "inp_value m' = inp_value m"
    by (simp_all add: n'_def e'_def m'_def validateField_value)
  have keep: "button_complete ?p3" "subject_shown ?p3 = Some label" "phone_shown ?p3 = phone_shown p"
    "timers ?p3 = timers p" "opened ?p3 = opened p" "body_children ?p3 = body_children p"
    using assms(7,8) by (simp_all add: button_complete_def subject_shown_def phone_shown_def)
  have wf: "wellFormed (trim (inp_value n'))" "wellFormed (trim (inp_value e'))"
    "wellFormed (trim (inp_value m'))" "wellFormed (phone_shown ?p3)"
    using assms(9-12) by (simp_all only: vals keep)
  from submit_valid_link [OF keep(1) keep(2) wf assms(13), of script]
  obtain payload subj body where
    r0: "fst (submit_valid script n' e' m' ?p3) = None"
      "timers (snd (submit_valid script n' e' m' ?p3))
         = timers ?p3 @ [(1000, case script of
                  Original \<Rightarrow> SubmitDone (whatsappUrl payload) (mailtoUrl subj body) (gather n' e' m' ?p3)
                | Optimized \<Rightarrow> SubmitDone_opt (whatsappUrl payload))]"
      "opened (snd (submit_valid script n' e' m' ?p3)) = opened ?p3"
      "body_children (snd (submit_valid script n' e' m' ?p3)) = body_children ?p3"
      "decodeURIComponent payload
         = Inr (enquiry_text (trim (inp_value n')) (trim (inp_value e')) (phone_shown ?p3) label (trim (inp_value m')))"
    by blast
  have "fst (submit script p) = None
      \<and> timers (snd (submit script p))
         = timers p @ [(1000, case script of
                  Original \<Rightarrow> SubmitDone (whatsappUrl payload) (mailtoUrl subj body) (gather n' e' m' ?p3)
                | Optimized \<Rightarrow> SubmitDone_opt (whatsappUrl payload))]
      \<and> opened (snd (submit script p)) = opened p
      \<and> body_children (snd (submit script p)) = body_children p
      \<and> decodeURIComponent payload
         = Inr (enquiry_text (trim (inp_value n)) (trim (inp_value e)) (phone_shown p) label (trim (inp_value m)))"
    using r0 by (simp only: sub vals keep simp_thms)
  then show ?thesis
    by - (rule exI, rule exI, rule exI, rule exI, assumption)
qed

lemma jo_trims:
  "trim (js ''Jo Smith'') = js ''Jo Smith''"
  "trim (js ''jo@example.com'') = js ''jo@example.com''"
  "trim (js ''Hello, I would like to order.'') = js ''Hello, I would like to order.''"
  "trim [0x4A, 0xD800] = [0x4A, 0xD800]"
  by (simp_all add: trim_def js_def ch_def isWhiteSpace_def)

lemma jo_valid:
  "validateField (blank_input\<lparr>inp_value := js ''Jo Smith''\<rparr>) (Some []) ''name''
     = (True, blank_input\<lparr>inp_value := js ''Jo Smith''\<rparr>, Some [])"
  "validateField (blank_input\<lparr>inp_value := js ''jo@example.com''\<rparr>) (Some []) ''email''
     = (True, blank_input\<lparr>inp_value := js ''jo@example.com''\<rparr>, Some [])"
  "validateField (blank_input\<lparr>inp_value := js ''Hello, I would like to order.''\<rparr>) (Some []) ''message''
     = (True, blank_input\<lparr>inp_value := js ''Hello, I would like to order.''\<rparr>, Some [])"
  "validateField (blank_input\<lparr>inp_value := [0x4A, 0xD800]\<rparr>) (Some []) ''name''
     = (True, blank_input\<lparr>inp_value := [0x4A, 0xD800]\<rparr>, Some [])"
  by (simp_all add: validateField_cases jo_trims jo_email passed_def blank_input_def)
    (simp_all add: js_def)

lemma jo_shown:
  "button_complete jo_page" "subject_shown jo_page = Some (js ''General Inquiry'')"
  "phone_shown jo_page = js ''Not provided''"
  by (simp_all add: button_complete_def subject_shown_def phone_shown_def jo_lookup)
























text \<open>
  Claim C9. In main.js the timer callback of the example submission opens the WhatsApp URL
  with \<^verbatim>\<open>window.open\<close> and puts the mailto URL into the \<^verbatim>\<open>href\<close> of a hidden anchor that it
  appends to the body. That is all the callback does with the mailto URL: the anchor is
  never clicked, so no navigation to it takes place.
\<close>

theorem mailto_link_only_appended:
  "\<exists>url mailto formData.
     timers (snd (submit Original jo_page)) = [(1000, SubmitDone url mailto formData)]
     \<and> prefix (js ''mailto:freshflowfoods@gmail.com?subject='') mailto
     \<and> opened (snd (fire_timer (snd (submit Original jo_page)))) = [(url, js ''_blank'')]
     \<and> body_children (snd (fire_timer (snd (submit Original jo_page))))
         = [\<lparr>href = mailto, anchor_display = js ''none''\<rparr>]"
proof -
  have v: "fst (validate Original (blank_input\<lparr>inp_value := js ''Jo Smith''\<rparr>) (nameError jo_page) ''name'')"
    "fst (validate Original (blank_input\<lparr>inp_value := js ''jo@example.com''\<rparr>) (emailError jo_page) ''email'')"
    "fst (validate Original (blank_input\<lparr>inp_value := js ''Hello, I would like to order.''\<rparr>)
        (messageError jo_page) ''message'')"
    by (simp_all add: validate_def jo_lookup jo_valid)
  have wf: "wellFormed (trim (inp_value (blank_input\<lparr>inp_value := js ''Jo Smith''\<rparr>)))"
    "wellFormed (trim (inp_value (blank_input\<lparr>inp_value := js ''jo@example.com''\<rparr>)))"
    "wellFormed (trim (inp_value (blank_input\<lparr>inp_value := js ''Hello, I would like to order.''\<rparr>)))"
    "wellFormed (phone_shown jo_page)" "wellFormed (js ''General Inquiry'')"
    by (simp_all add: jo_trims jo_shown wellFormed_js)
  from valid_submit_task
      [OF jo_lookup(1) jo_lookup(2) jo_lookup(3) v jo_shown(1) jo_shown(2) wf]
  obtain payload subj body formData where
    t: "timers (snd (submit Original jo_page))
          = [(1000, SubmitDone (whatsappUrl payload) (mailtoUrl subj body) formData)]"
      "opened (snd (submit Original jo_page)) = []"
      "body_children (snd (submit Original jo_page)) = []"
    by (auto simp: jo_lookup)
  let ?q = "snd (submit Original jo_page)"
  have fire: "fire_timer ?q
      = run_task (SubmitDone (whatsappUrl payload) (mailtoUrl subj body) formData) (?q\<lparr>timers := []\<rparr>)"
    by (simp add: fire_timer_def t(1))
  have "opened (snd (fire_timer ?q)) = [(whatsappUrl payload, js ''_blank'')]"
    unfolding fire run_task_opens by (simp add: t(2) task_url_def)
  moreover have "body_children (snd (fire_timer ?q))
      = [\<lparr>href = mailtoUrl subj body, anchor_display = js ''none''\<rparr>]"
    unfolding fire run_task_appends by (simp add: t(3))
  moreover have "prefix (js ''mailto:freshflowfoods@gmail.com?subject='') (mailtoUrl subj body)"
    by (simp add: mailtoUrl_def)
  ultimately show ?thesis
    using t(1) by blast
qed

subsection \<open>Deferred initialization\<close>

lemma page_ready_stage: "page_ready idle = stage idle 0"
  by (simp add: page_ready_def critical_def initDeferredFeatures_def stage_def)

lemma run_stage: "k < 3 \<Longrightarrow> run_callback 0 (stage idle k) = stage idle (Suc k)"
proof -
  assume "k < 3"
  then consider "k = 0" | "k = 1" | "k = 2" by linarith
  then show ?thesis
    by cases (simp_all add: run_callback_def stage_def deferInit_def idle_trigger_def nonCritical_def)
qed

lemma queue_stage: "length (queue (stage idle k)) = (if k < 3 then 1 else 0)"
  by (simp add: stage_def)

lemma reaches_stage:
  "reaches (page_ready idle) w \<Longrightarrow> \<exists>k \<le> 3. w = stage idle k"
proof (induction rule: reaches.induct)
  case at_start
  show ?case by (auto simp: page_ready_stage)
next
  case (callback_runs w i)
  then obtain k where k: "k \<le> 3" "w = stage idle k" by blast
  with callback_runs.hyps(2) have "k < 3" "i = 0"
    by (auto simp: queue_stage split: if_splits)
  then have "run_callback i w = stage idle (Suc k)" "Suc k \<le> 3"
    by (simp_all add: k(2) run_stage)
  then show ?case by blast
qed

lemma stage_reached: "k \<le> 3 \<Longrightarrow> reaches (page_ready idle) (stage idle k)"
proof (induction k)
  case 0
  show ?case unfolding page_ready_stage [symmetric] by (rule at_start)
next
  case (Suc k)
  then have "reaches (page_ready idle) (stage idle k)" "k < 3" by simp_all
  from callback_runs [OF this(1), of 0] this(2) show ?case
    by (simp add: queue_stage run_stage)
qed


lemma stage_queue_trigger:
  assumes "k \<le> 3" "(t, nonCritical) \<in> set (queue (stage idle k))"
  shows "t = (if idle then WhenIdle 2000 else AfterDelay 100)
    \<and> InitHeroSwiperDeferred \<in> set (calls (stage idle k))"
proof -
  from assms(1) consider "k = 0" | "k = 1" | "k = 2" | "k = 3" by linarith
  then show ?thesis
    using assms(2)
    by cases (simp_all add: stage_def nonCritical_def idle_trigger_def deferInit_def)
qed

lemma stage_calls_order:
  assumes "k \<le> 3" "Call f \<in> set nonCritical" "f \<in> set (calls (stage idle k))"
  shows "\<exists>before after. calls (stage idle k) = before @ InitHeroSwiperDeferred # after
     \<and> f \<in> set after \<and> f \<notin> set before"
proof -
  from assms(1) consider "k = 0" | "k = 1" | "k = 2" | "k = 3" by linarith
  then show ?thesis
  proof cases
    case 4
    have "calls (stage idle k) = [InitHeader, InitMobileMenu, InitDropdowns] @ InitHeroSwiperDeferred
        # [InitSmoothScroll, InitScrollAnimations, InitBreedCardsAnimation, InitContactForm,
           InitActiveNav, InitBackToTop, InitResponsiveHandlers]"
      by (simp add: 4 stage_def)
    moreover have "f \<in> set [InitSmoothScroll, InitScrollAnimations, InitBreedCardsAnimation,
        InitContactForm, InitActiveNav, InitBackToTop, InitResponsiveHandlers]"
      using assms(2) by (auto simp: nonCritical_def)
    moreover from this have "f \<notin> set [InitHeader, InitMobileMenu, InitDropdowns]"
      by auto
    ultimately show ?thesis by blast
  qed (use assms(2,3) in \<open>auto simp: stage_def nonCritical_def\<close>)
qed

text \<open>
  Claim C4. \<open>deferInit\<close> registers its callback with \<^verbatim>\<open>requestIdleCallback\<close> and the option
  \<^verbatim>\<open>timeout: 2000\<close> when idle scheduling is available, and with \<^verbatim>\<open>setTimeout\<close> and a delay of
  100 otherwise. Whatever callbacks the browser runs after the document is ready, the event
  loop is in one of the four stages; the bundle of non-critical initializers is only ever
  queued with that trigger and only after the carousel initializer has been called, every
  call of an initializer of the bundle comes after the call of the carousel initializer, and
  the last stage, with all initializers called, can be reached.
\<close>

theorem carousel_before_deferred_bundle:
  "deferInit True callback = [RequestIdleCallback callback 2000]
   \<and> deferInit False callback = [SetTimeout callback 100]
   \<and> (reaches (page_ready idle) w \<longrightarrow>
        (\<exists>k\<le>3. w = stage idle k)
        \<and> (\<forall>t. (t, nonCritical) \<in> set (queue w) \<longrightarrow>
              t = (if idle then WhenIdle 2000 else AfterDelay 100)
              \<and> InitHeroSwiperDeferred \<in> set (calls w))
        \<and> (\<forall>f. Call f \<in> set nonCritical \<and> f \<in> set (calls w) \<longrightarrow>
              (\<exists>before after. calls w = before @ InitHeroSwiperDeferred # after
                 \<and> f \<in> set after \<and> f \<notin> set before)))
   \<and> reaches (page_ready idle) (stage idle 3)"
proof (intro conjI impI)
  show "deferInit True callback = [RequestIdleCallback callback 2000]"
    and "deferInit False callback = [SetTimeout callback 100]"
    by (simp_all add: deferInit_def)
  show "reaches (page_ready idle) (stage idle 3)"
    by (rule stage_reached) simp
next
  assume "reaches (page_ready idle) w"
  then obtain k where k: "k \<le> 3" "w = stage idle k"
    using reaches_stage by blast
  then show "\<exists>k\<le>3. w = stage idle k" by blast
  show "\<forall>t. (t, nonCritical) \<in> set (queue w) \<longrightarrow>
      t = (if idle then WhenIdle 2000 else AfterDelay 100) \<and> InitHeroSwiperDeferred \<in> set (calls w)"
    unfolding k(2) using stage_queue_trigger [OF k(1)] by blast
  show "\<forall>f. Call f \<in> set nonCritical \<and> f \<in> set (calls w) \<longrightarrow>
      (\<exists>before after. calls w = before @ InitHeroSwiperDeferred # after \<and> f \<in> set after \<and> f \<notin> set before)"
    unfolding k(2) using stage_calls_order [OF k(1)] by blast
qed

theorem carousel_before_deferred_bundle_witness:
  "reaches (page_ready True) (run_callback 0 (run_callback 0 (page_ready True)))
   \<and> calls (run_callback 0 (run_callback 0 (page_ready True)))
       = [InitHeader, InitMobileMenu, InitDropdowns, InitHeroSwiperDeferred]
   \<and> queue (run_callback 0 (run_callback 0 (page_ready True))) = [(WhenIdle 2000, nonCritical)]
   \<and> queue (run_callback 0 (run_callback 0 (page_ready False))) = [(AfterDelay 100, nonCritical)]"
proof -
  have two: "run_callback 0 (run_callback 0 (page_ready idle)) = stage idle 2" for idle
    by (simp add: page_ready_stage run_stage numeral_2_eq_2)
  have r: "reaches (page_ready True) (run_callback 0 (run_callback 0 (page_ready True)))"
    unfolding two by (rule stage_reached) simp
  have q: "(WhenIdle 2000, nonCritical) \<in> set (queue (run_callback 0 (run_callback 0 (page_ready True))))"
    by (simp add: two stage_def idle_trigger_def)
  from carousel_before_deferred_bundle [of nonCritical True "run_callback 0 (run_callback 0 (page_ready True))"] r q
  have "InitHeroSwiperDeferred \<in> set (calls (run_callback 0 (run_callback 0 (page_ready True))))"
    by blast
  then show ?thesis
    using r by (simp add: two stage_def idle_trigger_def)
qed


subsection \<open>Scroll-triggered reveal\<close>

lemma is_animated_add: "is_animated (add_animated t w) u = (is_animated w u \<or> (u = t \<and> t < length (animatedElements w)))"
  by (auto simp: is_animated_def add_animated_def classList_contains_def classList_add_def nth_list_update)

lemma add_animated_frame:
  "length (animatedElements (add_animated t w)) = length (animatedElements w)"
  "observed (add_animated t w) = observed w"
  "reveal_timers (add_animated t w) = reveal_timers w"
  "revealed_log (add_animated t w) = (if t < length (animatedElements w) \<and> \<not> is_animated w t
      then revealed_log w @ [t] else revealed_log w)"
  by (simp_all add: add_animated_def)

lemma inv_add_animated:
  assumes "reveal_inv n w" "t \<notin> observed w"
  shows "reveal_inv n (add_animated t w)"
proof -
  have "t \<notin> set (revealed_log w)" if "\<not> is_animated w t"
    using assms(1) that by (auto simp: reveal_inv_def)
  then show ?thesis
    using assms by (auto simp: reveal_inv_def add_animated_frame is_animated_add)
qed

lemma inv_on_entry:
  assumes "reveal_inv n w" "target x < n"
  shows "reveal_inv n (on_entry x w)"
  using assms by (auto simp: reveal_inv_def on_entry_def Let_def is_animated_def)

lemma inv_observer_callback:
  assumes "reveal_inv n w" "\<forall>x \<in> set entries. target x < n"
  shows "reveal_inv n (observer_callback entries w)"
  using assms unfolding observer_callback_def
  by (induction entries arbitrary: w) (simp_all add: inv_on_entry)

lemma inv_timer:
  assumes "reveal_inv n w" "k < length (reveal_timers w)"
  shows "reveal_inv n (reveal_timer_fires k w)"
proof -
  let ?w = "w\<lparr>reveal_timers := take k (reveal_timers w) @ drop (Suc k) (reveal_timers w)\<rparr>"
  have "set (reveal_timers ?w) \<subseteq> set (reveal_timers w)"
    by (auto dest: in_set_takeD in_set_dropD)
  then have "reveal_inv n ?w"
    using assms(1) by (auto simp: reveal_inv_def is_animated_def)
  moreover have "snd (reveal_timers w ! k) \<notin> observed ?w"
    using assms by (auto simp: reveal_inv_def)
  ultimately show ?thesis
    using assms(2) by (simp add: reveal_timer_fires_def inv_add_animated)
qed

lemma inv_fold_add:
  "reveal_inv n w \<Longrightarrow> observed w = {} \<Longrightarrow> reveal_inv n (fold add_animated ts w) \<and> observed (fold add_animated ts w) = {}"
  by (induction ts arbitrary: w) (simp_all add: inv_add_animated add_animated_frame)

lemma inv_init: "reveal_inv (length els) (initScrollAnimations reduced els)"
proof -
  let ?w = "\<lparr>animatedElements = els, observed = {}, reveal_timers = [], revealed_log = []\<rparr>"
  have base: "reveal_inv (length els) ?w"
    by (simp add: reveal_inv_def)
  show ?thesis
  proof (cases "length els = 0 \<or> reduced")
    case True
    then show ?thesis
      using base inv_fold_add [OF base, of "[0..<length els]"]
      by (auto simp: initScrollAnimations_def Let_def)
  next
    case False
    then show ?thesis
      by (simp add: initScrollAnimations_def Let_def reveal_inv_def)
  qed
qed

lemma reported_targets:
  assumes "list_all (\<lambda>x. target x \<in> observed w) entries" "observed w \<subseteq> {0..<n}"
  shows "\<forall>x \<in> set entries. target x < n"
  using assms by (auto simp: list_all_iff)

lemma inv_step:
  assumes "reveal_inv n w" "possible (ev # evs) w"
  shows "reveal_inv n (scroll_step ev w)"
proof (cases ev)
  case (Reports entries)
  from assms have "\<forall>x \<in> set entries. target x < n"
    by (intro reported_targets [of w]) (simp_all add: Reports reveal_inv_def)
  with assms(1) show ?thesis
    by (simp add: Reports inv_observer_callback)
next
  case (RevealTimer k)
  with assms show ?thesis by (simp add: inv_timer)
qed

lemma possible_rest: "possible (ev # evs) w \<Longrightarrow> possible evs (scroll_step ev w)"
  by (cases ev) simp_all

lemma run_inv: "reveal_inv n w \<Longrightarrow> possible evs w \<Longrightarrow> reveal_inv n (scroll_run evs w)"
proof (induction evs arbitrary: w)
  case Nil
  then show ?case by simp
next
  case (Cons ev evs)
  from Cons.prems have "reveal_inv n (scroll_step ev w)" by (rule inv_step)
  with Cons.prems(2) show ?case
    by (simp add: Cons.IH possible_rest)
qed


text \<open>An element is observed until a report says that it intersects, and never again.\<close>

lemma observed_observer_callback:
  "observed (observer_callback entries w) = observed w - target ` set (filter isIntersecting entries)"
  unfolding observer_callback_def
  by (induction entries arbitrary: w) (auto simp: on_entry_def Let_def)

lemma observed_timer: "observed (reveal_timer_fires k w) = observed w"
  by (simp add: reveal_timer_fires_def add_animated_frame)

lemma observed_run: "observed (scroll_run evs w) = observed w - entered evs"
proof (induction evs arbitrary: w)
  case Nil
  then show ?case by simp
next
  case (Cons ev evs)
  then show ?case
    by (cases ev) (auto simp: observed_observer_callback observed_timer)
qed

text \<open>A report that an element intersects sets its timer, and the timer gives it the class.\<close>

lemma entered_on_entry:
  assumes "entered_inv n S w" "target x < n"
  shows "entered_inv n (S \<union> (if isIntersecting x then {target x} else {})) (on_entry x w)"
  using assms by (auto simp: entered_inv_def on_entry_def Let_def is_animated_def)

lemma entered_callback:
  assumes "entered_inv n S w" "\<forall>x \<in> set entries. target x < n"
  shows "entered_inv n (S \<union> target ` set (filter isIntersecting entries)) (observer_callback entries w)"
  using assms unfolding observer_callback_def
proof (induction entries arbitrary: w S)
  case Nil
  then show ?case by simp
next
  case (Cons x xs)
  have "entered_inv n (S \<union> (if isIntersecting x then {target x} else {})) (on_entry x w)"
    using Cons.prems by (simp add: entered_on_entry)
  then have "entered_inv n ((S \<union> (if isIntersecting x then {target x} else {}))
      \<union> target ` set (filter isIntersecting xs)) (fold on_entry xs (on_entry x w))"
    using Cons.prems(2) by (intro Cons.IH) simp_all
  moreover have "(S \<union> (if isIntersecting x then {target x} else {})) \<union> target ` set (filter isIntersecting xs)
      = S \<union> target ` set (filter isIntersecting (x # xs))"
    by auto
  ultimately show ?case by simp
qed

lemma timers_without:
  assumes "k < length ts"
  shows "set ts = set (take k ts @ drop (Suc k) ts) \<union> {ts ! k}"
proof -
  have "ts = take k ts @ ts ! k # drop (Suc k) ts"
    using assms by (rule id_take_nth_drop)
  then have "set ts = set (take k ts @ ts ! k # drop (Suc k) ts)"
    by simp
  then show ?thesis by auto
qed

lemma entered_timer:
  assumes "entered_inv n S w" "k < length (reveal_timers w)"
  shows "entered_inv n S (reveal_timer_fires k w)"
proof -
  define t where "t = snd (reveal_timers w ! k)"
  define rest where "rest = take k (reveal_timers w) @ drop (Suc k) (reveal_timers w)"
  define w' where "w' = w\<lparr>reveal_timers := rest\<rparr>"
  have split: "set (reveal_timers w) = set rest \<union> {reveal_timers w ! k}"
    unfolding rest_def using assms(2) by (rule timers_without)
  have "reveal_timers w ! k \<in> set (reveal_timers w)"
    using assms(2) by simp
  then have tS: "t \<in> S"
    using assms(1) by (auto simp: entered_inv_def t_def)
  then have tn: "t < length (animatedElements w')"
    using assms(1) by (auto simp: entered_inv_def w'_def)
  have fires: "reveal_timer_fires k w = add_animated t w'"
    using assms(2) by (simp add: reveal_timer_fires_def t_def w'_def rest_def)
  have same: "is_animated w' u = is_animated w u" for u
    by (simp add: is_animated_def w'_def)
  have len: "length (animatedElements (add_animated t w')) = n"
    using assms(1) by (simp add: add_animated_frame entered_inv_def w'_def)
  have pend: "snd ` set (reveal_timers (add_animated t w')) \<subseteq> S"
    using assms(1) split by (auto simp: add_animated_frame entered_inv_def w'_def)
  have log: "set (revealed_log (add_animated t w')) \<subseteq> S"
    using assms(1) tS by (auto simp: add_animated_frame entered_inv_def w'_def)
  have each: "u \<in> snd ` set (reveal_timers (add_animated t w')) \<or> is_animated (add_animated t w') u"
    if "u \<in> S" for u
  proof -
    from assms(1) that have "u \<in> snd ` set (reveal_timers w) \<or> is_animated w u"
      by (simp add: entered_inv_def)
    then show ?thesis
    proof
      assume "u \<in> snd ` set (reveal_timers w)"
      then have "u \<in> snd ` set rest \<or> u = t"
        unfolding split t_def by auto
      then show ?thesis
        using tn by (auto simp: add_animated_frame is_animated_add w'_def)
    next
      assume "is_animated w u"
      then show ?thesis
        by (simp add: is_animated_add same)
    qed
  qed
  from assms(1) have "S \<subseteq> {0..<n}"
    by (simp add: entered_inv_def)
  with len pend log each show ?thesis
    unfolding fires entered_inv_def by blast
qed

lemma entered_run:
  "entered_inv n S w \<Longrightarrow> observed w \<subseteq> {0..<n} \<Longrightarrow> possible evs w
     \<Longrightarrow> entered_inv n (S \<union> entered evs) (scroll_run evs w)"
proof (induction evs arbitrary: w S)
  case Nil
  then show ?case by simp
next
  case (Cons ev evs)
  show ?case
  proof (cases ev)
    case (Reports entries)
    from Cons.prems have poss: "list_all (\<lambda>x. target x \<in> observed w) entries"
      "possible evs (observer_callback entries w)"
      by (simp_all add: Reports)
    have "\<forall>x \<in> set entries. target x < n"
      using poss(1) Cons.prems(2) by (rule reported_targets)
    with Cons.prems(1)
    have "entered_inv n (S \<union> target ` set (filter isIntersecting entries)) (observer_callback entries w)"
      by (rule entered_callback)
    moreover have "observed (observer_callback entries w) \<subseteq> {0..<n}"
      using Cons.prems(2) by (auto simp: observed_observer_callback)
    ultimately have "entered_inv n ((S \<union> target ` set (filter isIntersecting entries)) \<union> entered evs)
        (scroll_run evs (observer_callback entries w))"
      using poss(2) by (rule Cons.IH)
    then show ?thesis
      by (simp add: Reports Un_assoc)
  next
    case (RevealTimer k)
    from Cons.prems have poss: "k < length (reveal_timers w)" "possible evs (reveal_timer_fires k w)"
      by (simp_all add: RevealTimer)
    from Cons.prems(1) poss(1) have "entered_inv n S (reveal_timer_fires k w)"
      by (rule entered_timer)
    moreover have "observed (reveal_timer_fires k w) \<subseteq> {0..<n}"
      using Cons.prems(2) by (simp add: observed_timer)
    ultimately have "entered_inv n (S \<union> entered evs) (scroll_run evs (reveal_timer_fires k w))"
      using poss(2) by (rule Cons.IH)
    then show ?thesis
      by (simp add: RevealTimer)
  qed
qed

text \<open>An element has the class when it had it from the start or its change is on record.\<close>

lemma callback_frame:
  "animatedElements (observer_callback entries w) = animatedElements w"
  "revealed_log (observer_callback entries w) = revealed_log w"
  unfolding observer_callback_def
  by (induction entries arbitrary: w) (simp_all add: on_entry_def Let_def)

lemma animated_step:
  assumes "\<forall>t. is_animated w t = (A t \<or> t \<in> set (revealed_log w))"
  shows "\<forall>t. is_animated (scroll_step ev w) t = (A t \<or> t \<in> set (revealed_log (scroll_step ev w)))"
proof (cases ev)
  case (Reports entries)
  have "is_animated (observer_callback entries w) t = is_animated w t" for t
    by (simp add: is_animated_def callback_frame)
  with assms show ?thesis
    by (simp add: Reports callback_frame)
next
  case (RevealTimer k)
  show ?thesis
  proof (cases "k < length (reveal_timers w)")
    case False
    with assms show ?thesis
      by (simp add: RevealTimer reveal_timer_fires_def)
  next
    case True
    define w' where "w' = w\<lparr>reveal_timers := take k (reveal_timers w) @ drop (Suc k) (reveal_timers w)\<rparr>"
    have same: "is_animated w' u = is_animated w u" "revealed_log w' = revealed_log w"
      "length (animatedElements w') = length (animatedElements w)" for u
      by (simp_all add: is_animated_def w'_def)
    have fires: "reveal_timer_fires k w = add_animated (snd (reveal_timers w ! k)) w'"
      using True by (simp add: reveal_timer_fires_def w'_def)
    show ?thesis
      unfolding RevealTimer scroll_step.simps fires
      using assms by (auto simp: is_animated_add add_animated_frame same)
  qed
qed

lemma animated_run:
  "\<forall>t. is_animated w t = (A t \<or> t \<in> set (revealed_log w))
     \<Longrightarrow> \<forall>t. is_animated (scroll_run evs w) t = (A t \<or> t \<in> set (revealed_log (scroll_run evs w)))"
proof (induction evs arbitrary: w)
  case Nil
  then show ?case by simp
next
  case (Cons ev evs)
  from Cons.prems have "\<forall>t. is_animated (scroll_step ev w) t = (A t \<or> t \<in> set (revealed_log (scroll_step ev w)))"
    by (rule animated_step)
  then show ?case
    by (simp add: Cons.IH)
qed

text \<open>The page that \<open>initScrollAnimations\<close> leaves when reduced motion is not preferred.\<close>

lemma observing_init:
  "observed (initScrollAnimations False els) = {0..<length els}"
  "reveal_timers (initScrollAnimations False els) = []"
  "revealed_log (initScrollAnimations False els) = []"
  "length (animatedElements (initScrollAnimations False els)) = length els"
  "is_animated (initScrollAnimations False els) t
     = (t < length els \<and> classList_contains ''animated'' (el_classes (els ! t)))"
  by (auto simp: initScrollAnimations_def Let_def is_animated_def nth_enumerate_eq split: if_splits)

lemma entered_init: "entered_inv (length els) {} (initScrollAnimations False els)"
  by (simp add: entered_inv_def observing_init)

lemma timer_reveals:
  assumes "reveal_inv n w" "k < length (reveal_timers w)"
  shows "is_animated (reveal_timer_fires k w) (snd (reveal_timers w ! k))"
proof -
  have "reveal_timers w ! k \<in> set (reveal_timers w)"
    using assms(2) by simp
  then have "snd (reveal_timers w ! k) < length (animatedElements w)"
    using assms(1) by (auto simp: reveal_inv_def)
  then show ?thesis
    using assms(2) by (simp add: reveal_timer_fires_def is_animated_add)
qed

lemma distinct_count_le_1: "distinct xs \<Longrightarrow> count_list xs e \<le> 1"
  by (induction xs) (auto simp: count_list_0_iff)

lemma first_entry_reveals:
  assumes "reveal_inv n w" "e \<in> observed w"
  shows "e \<notin> set (revealed_log w)"
    and "e \<notin> observed (observer_callback [\<lparr>target = e, isIntersecting = True\<rparr>] w)"
    and "revealed_log (reveal_timer_fires (length (reveal_timers w))
           (observer_callback [\<lparr>target = e, isIntersecting = True\<rparr>] w))
         = (if is_animated w e then revealed_log w else revealed_log w @ [e])"
    and "is_animated (reveal_timer_fires (length (reveal_timers w))
           (observer_callback [\<lparr>target = e, isIntersecting = True\<rparr>] w)) e"
proof -
  have e: "e < length (animatedElements w)"
    using assms by (auto simp: reveal_inv_def)
  show "e \<notin> set (revealed_log w)"
    using assms by (auto simp: reveal_inv_def)
  let ?w1 = "observer_callback [\<lparr>target = e, isIntersecting = True\<rparr>] w"
  obtain d where w1: "?w1 = w\<lparr>reveal_timers := reveal_timers w @ [(d, e)], observed := observed w - {e}\<rparr>"
    by (simp add: observer_callback_def on_entry_def Let_def)
  show "e \<notin> observed ?w1"
    by (simp add: w1)
  let ?w' = "w\<lparr>reveal_timers := reveal_timers w, observed := observed w - {e}\<rparr>"
  let ?w2 = "reveal_timer_fires (length (reveal_timers w)) ?w1"
  have w2: "?w2 = add_animated e ?w'"
    by (simp add: w1 reveal_timer_fires_def)
  have same: "is_animated (w\<lparr>observed := X\<rparr>) u = is_animated w u" for X u
    by (simp add: is_animated_def)
  show "revealed_log ?w2 = (if is_animated w e then revealed_log w else revealed_log w @ [e])"
    unfolding w2 using e by (simp add: add_animated_frame same)
  show "is_animated ?w2 e"
    unfolding w2 using e by (simp add: is_animated_add)
qed

text \<open>
  Where reduced motion is preferred every element has the class from the start, nothing is
  observed and no timer is set, so that nothing can happen afterwards.
\<close>

lemma fold_add_frame:
  "observed (fold add_animated ts w) = observed w"
  "reveal_timers (fold add_animated ts w) = reveal_timers w"
  "length (animatedElements (fold add_animated ts w)) = length (animatedElements w)"
  by (induction ts arbitrary: w) (simp_all add: add_animated_frame)

lemma animated_fold_add:
  "is_animated (fold add_animated ts w) t
     = (is_animated w t \<or> (t \<in> set ts \<and> t < length (animatedElements w)))"
  by (induction ts arbitrary: w) (auto simp: is_animated_add add_animated_frame)

lemma reduced_init:
  "observed (initScrollAnimations True els) = {}"
  "reveal_timers (initScrollAnimations True els) = []"
  "t < length els \<Longrightarrow> is_animated (initScrollAnimations True els) t"
  by (auto simp: initScrollAnimations_def Let_def fold_add_frame animated_fold_add)

lemma idle_run:
  "observed w = {} \<Longrightarrow> reveal_timers w = [] \<Longrightarrow> possible evs w \<Longrightarrow> scroll_run evs w = w"
proof (induction evs)
  case Nil
  then show ?case by simp
next
  case (Cons ev evs)
  show ?case
  proof (cases ev)
    case (Reports entries)
    from Cons.prems have "list_all (\<lambda>x. False) entries"
      by (simp add: Reports)
    then have none: "entries = []"
      by (cases entries) simp_all
    with Cons show ?thesis
      by (simp add: Reports observer_callback_def)
  next
    case (RevealTimer k)
    with Cons.prems show ?thesis by simp
  qed
qed

lemma two_cards_init:
  "initScrollAnimations False two_cards
     = \<lparr>animatedElements = [\<lparr>el_classes = {''card''}, el_delay = Some 0\<rparr>,
                             \<lparr>el_classes = {''card''}, el_delay = Some 250\<rparr>],
        observed = {0..<2}, reveal_timers = [], revealed_log = []\<rparr>"
  by (simp add: initScrollAnimations_def two_cards_def Let_def numeral_2_eq_2)

lemma two_cards_reduced:
  "revealed_log (initScrollAnimations True two_cards) = [0, 1]"
  by (simp add: initScrollAnimations_def two_cards_def Let_def upt_rec add_animated_def
      is_animated_def classList_contains_def classList_add_def)


text \<open>
  Claim C5, amended. After \<open>initScrollAnimations\<close>, let any possible sequence of observer reports
  and timer firings happen. Every element has gained the class \<^verbatim>\<open>animated\<close> at most once; an
  element that gained it is no longer observed, and so is every element with a reveal
  pending; a timer that fires gives its element the class; a report that an element is not
  intersecting changes nothing; the first intersecting report for an observed element
  unobserves it at once and sets its timer, and when that timer fires the element gains the
  class, once and for all (it has it already if it carried it from the start).

  Where reduced motion is not preferred, every candidate is observed from the start, and the
  observed elements are at any time exactly the candidates that no report has yet shown as
  intersecting: an element stays observed until its first such report, is unobserved by it at
  once and is never observed again, so that no later entering is reported. Each element so
  reported has its reveal pending or has the class, no other element has a reveal pending or
  recorded, and an element has the class exactly when it carried it from the start or its one
  change is on record.

  Where reduced motion is preferred, every candidate has the class from the start, nothing is
  observed, no reveal is pending, and nothing changes afterwards.
\<close>

theorem reveal_exactly_once:
  assumes "possible evs (initScrollAnimations prefersReducedMotion elements)"
    and "w = scroll_run evs (initScrollAnimations prefersReducedMotion elements)"
  shows "distinct (revealed_log w)
    \<and> count_list (revealed_log w) e \<le> 1
    \<and> (\<forall>t \<in> set (revealed_log w). is_animated w t \<and> t \<notin> observed w)
    \<and> (\<forall>x \<in> set (reveal_timers w). snd x \<notin> observed w)
    \<and> (\<forall>k < length (reveal_timers w). is_animated (reveal_timer_fires k w) (snd (reveal_timers w ! k)))
    \<and> observer_callback [\<lparr>target = e, isIntersecting = False\<rparr>] w = w
    \<and> (e \<in> observed w \<longrightarrow>
         e \<notin> set (revealed_log w)
         \<and> e \<notin> observed (observer_callback [\<lparr>target = e, isIntersecting = True\<rparr>] w)
         \<and> revealed_log (reveal_timer_fires (length (reveal_timers w))
              (observer_callback [\<lparr>target = e, isIntersecting = True\<rparr>] w))
            = (if is_animated w e then revealed_log w else revealed_log w @ [e])
         \<and> is_animated (reveal_timer_fires (length (reveal_timers w))
              (observer_callback [\<lparr>target = e, isIntersecting = True\<rparr>] w)) e)
    \<and> (\<not> prefersReducedMotion \<longrightarrow>
         observed (initScrollAnimations prefersReducedMotion elements) = {0..<length elements}
         \<and> observed w = {0..<length elements} - entered evs
         \<and> snd ` set (reveal_timers w) \<union> set (revealed_log w) \<subseteq> entered evs
         \<and> (\<forall>t \<in> entered evs. t \<in> snd ` set (reveal_timers w) \<or> is_animated w t)
         \<and> (\<forall>t. is_animated w t
                = ((t < length elements \<and> classList_contains ''animated'' (el_classes (elements ! t)))
                   \<or> t \<in> set (revealed_log w))))
    \<and> (prefersReducedMotion \<longrightarrow>
         w = initScrollAnimations prefersReducedMotion elements
         \<and> observed w = {} \<and> reveal_timers w = []
         \<and> (\<forall>t < length elements. is_animated w t))"
proof -
  let ?init = "initScrollAnimations prefersReducedMotion elements"
  have inv: "reveal_inv (length elements) w"
    unfolding assms(2) using inv_init assms(1) by (rule run_inv)
  then have safe: "distinct (revealed_log w)"
    "\<forall>t \<in> set (revealed_log w). is_animated w t \<and> t \<notin> observed w"
    "\<forall>x \<in> set (reveal_timers w). snd x \<notin> observed w"
    by (auto simp: reveal_inv_def)
  have fire: "\<forall>k < length (reveal_timers w). is_animated (reveal_timer_fires k w) (snd (reveal_timers w ! k))"
    using inv by (simp add: timer_reveals)
  have away: "observer_callback [\<lparr>target = e, isIntersecting = False\<rparr>] w = w"
    by (simp add: observer_callback_def on_entry_def)
  have first: "e \<in> observed w \<longrightarrow>
         e \<notin> set (revealed_log w)
         \<and> e \<notin> observed (observer_callback [\<lparr>target = e, isIntersecting = True\<rparr>] w)
         \<and> revealed_log (reveal_timer_fires (length (reveal_timers w))
              (observer_callback [\<lparr>target = e, isIntersecting = True\<rparr>] w))
            = (if is_animated w e then revealed_log w else revealed_log w @ [e])
         \<and> is_animated (reveal_timer_fires (length (reveal_timers w))
              (observer_callback [\<lparr>target = e, isIntersecting = True\<rparr>] w)) e"
    using first_entry_reveals [OF inv, of e] by blast
  have observing: "\<not> prefersReducedMotion \<longrightarrow>
         observed ?init = {0..<length elements}
         \<and> observed w = {0..<length elements} - entered evs
         \<and> snd ` set (reveal_timers w) \<union> set (revealed_log w) \<subseteq> entered evs
         \<and> (\<forall>t \<in> entered evs. t \<in> snd ` set (reveal_timers w) \<or> is_animated w t)
         \<and> (\<forall>t. is_animated w t
                = ((t < length elements \<and> classList_contains ''animated'' (el_classes (elements ! t)))
                   \<or> t \<in> set (revealed_log w)))"
  proof
    assume mode: "\<not> prefersReducedMotion"
    then have init: "?init = initScrollAnimations False elements"
      by simp
    have all: "observed ?init = {0..<length elements}"
      by (simp add: init observing_init)
    have obs: "observed w = {0..<length elements} - entered evs"
      by (simp add: assms(2) observed_run all)
    have "entered_inv (length elements) ({} \<union> entered evs) (scroll_run evs ?init)"
      using assms(1) by (intro entered_run) (simp_all add: init entered_init observing_init)
    then have ent: "entered_inv (length elements) (entered evs) w"
      by (simp add: assms(2))
    have "\<forall>t. is_animated (scroll_run evs ?init) t
        = ((t < length elements \<and> classList_contains ''animated'' (el_classes (elements ! t)))
           \<or> t \<in> set (revealed_log (scroll_run evs ?init)))"
      by (rule animated_run) (simp add: init observing_init)
    then have hist: "\<forall>t. is_animated w t
        = ((t < length elements \<and> classList_contains ''animated'' (el_classes (elements ! t)))
           \<or> t \<in> set (revealed_log w))"
      by (simp add: assms(2))
    from ent have "snd ` set (reveal_timers w) \<union> set (revealed_log w) \<subseteq> entered evs"
      "\<forall>t \<in> entered evs. t \<in> snd ` set (reveal_timers w) \<or> is_animated w t"
      by (simp_all add: entered_inv_def)
    with all obs hist show "observed ?init = {0..<length elements}
         \<and> observed w = {0..<length elements} - entered evs
         \<and> snd ` set (reveal_timers w) \<union> set (revealed_log w) \<subseteq> entered evs
         \<and> (\<forall>t \<in> entered evs. t \<in> snd ` set (reveal_timers w) \<or> is_animated w t)
         \<and> (\<forall>t. is_animated w t
                = ((t < length elements \<and> classList_contains ''animated'' (el_classes (elements ! t)))
                   \<or> t \<in> set (revealed_log w)))"
      by (intro conjI)
  qed
  have reduced: "prefersReducedMotion \<longrightarrow>
         w = ?init \<and> observed w = {} \<and> reveal_timers w = [] \<and> (\<forall>t < length elements. is_animated w t)"
  proof
    assume mode: prefersReducedMotion
    then have init: "?init = initScrollAnimations True elements"
      by simp
    have same: "w = ?init"
      unfolding assms(2) using assms(1) by (intro idle_run) (simp_all add: init reduced_init)
    then show "w = ?init \<and> observed w = {} \<and> reveal_timers w = [] \<and> (\<forall>t < length elements. is_animated w t)"
      by (simp add: init reduced_init)
  qed
  from distinct_count_le_1 [OF safe(1), of e] have once: "count_list (revealed_log w) e \<le> 1" .
  show ?thesis
    by (intro conjI safe once fire away first observing reduced)
qed


theorem reveal_exactly_once_witness:
  "possible [Reports [\<lparr>target = 1, isIntersecting = True\<rparr>, \<lparr>target = 0, isIntersecting = False\<rparr>],
             RevealTimer 0, Reports [\<lparr>target = 0, isIntersecting = False\<rparr>]]
     (initScrollAnimations False two_cards)
   \<and> entered [Reports [\<lparr>target = 1, isIntersecting = True\<rparr>, \<lparr>target = 0, isIntersecting = False\<rparr>],
              RevealTimer 0, Reports [\<lparr>target = 0, isIntersecting = False\<rparr>]] = {1}
   \<and> observed (scroll_run [Reports [\<lparr>target = 1, isIntersecting = True\<rparr>, \<lparr>target = 0, isIntersecting = False\<rparr>],
                            RevealTimer 0, Reports [\<lparr>target = 0, isIntersecting = False\<rparr>]]
                 (initScrollAnimations False two_cards)) = {0}
   \<and> is_animated (scroll_run [Reports [\<lparr>target = 1, isIntersecting = True\<rparr>, \<lparr>target = 0, isIntersecting = False\<rparr>],
                               RevealTimer 0, Reports [\<lparr>target = 0, isIntersecting = False\<rparr>]]
                    (initScrollAnimations False two_cards)) 1
   \<and> count_list (revealed_log (scroll_run [Reports [\<lparr>target = 1, isIntersecting = True\<rparr>, \<lparr>target = 0, isIntersecting = False\<rparr>],
                               RevealTimer 0, Reports [\<lparr>target = 0, isIntersecting = False\<rparr>]]
                    (initScrollAnimations False two_cards))) 1 \<le> 1
   \<and> possible [] (initScrollAnimations True two_cards)
   \<and> is_animated (scroll_run [] (initScrollAnimations True two_cards)) 1"
proof -
  let ?evs = "[Reports [\<lparr>target = 1, isIntersecting = True\<rparr>, \<lparr>target = 0, isIntersecting = False\<rparr>],
               RevealTimer 0, Reports [\<lparr>target = 0, isIntersecting = False\<rparr>]]"
  let ?init = "initScrollAnimations False two_cards"
  let ?w = "scroll_run ?evs ?init"
  have len: "length two_cards = 2"
    by (simp add: two_cards_def)
  have p: "possible ?evs ?init"
    by (simp add: two_cards_init observer_callback_def on_entry_def dataset_delay_def
        reveal_timer_fires_def add_animated_def is_animated_def classList_contains_def)
  have ent: "entered ?evs = {1}"
    by simp
  have pend: "reveal_timers ?w = []"
    by (simp add: two_cards_init observer_callback_def on_entry_def dataset_delay_def
        reveal_timer_fires_def add_animated_def is_animated_def classList_contains_def)
  note r = reveal_exactly_once [OF p refl, of 1]
  from r have obs: "observed ?w = {0..<length two_cards} - entered ?evs"
    by blast
  have obs': "observed ?w = {0}"
    unfolding obs ent len by auto
  from r have "\<forall>t \<in> entered ?evs. t \<in> snd ` set (reveal_timers ?w) \<or> is_animated ?w t"
    by blast
  then have an: "is_animated ?w 1"
    unfolding ent pend by simp
  from r have once: "count_list (revealed_log ?w) 1 \<le> 1"
    by blast
  have q: "possible [] (initScrollAnimations True two_cards)"
    by simp
  from reveal_exactly_once [OF q refl, of 1]
  have "\<forall>t < length two_cards. is_animated (scroll_run [] (initScrollAnimations True two_cards)) t"
    by blast
  then have all: "is_animated (scroll_run [] (initScrollAnimations True two_cards)) 1"
    by (simp add: len)
  from p ent obs' an once q all show ?thesis
    by (intro conjI)
qed

text \<open>
  Claim C5 as stated fails where reduced motion is preferred: two candidates that start
  without the class have it as soon as \<open>initScrollAnimations\<close> returns, before anything entered
  the viewport, and as nothing is observed no entering is ever reported.
\<close>

theorem reduced_motion_reveals_at_once:
  "\<not> classList_contains ''animated'' (el_classes (two_cards ! 0))
   \<and> \<not> classList_contains ''animated'' (el_classes (two_cards ! 1))
   \<and> is_animated (initScrollAnimations True two_cards) 0
   \<and> is_animated (initScrollAnimations True two_cards) 1
   \<and> revealed_log (initScrollAnimations True two_cards) = [0, 1]
   \<and> observed (initScrollAnimations True two_cards) = {}
   \<and> reveal_timers (initScrollAnimations True two_cards) = []
   \<and> \<not> possible [Reports [\<lparr>target = 0, isIntersecting = True\<rparr>]] (initScrollAnimations True two_cards)
   \<and> \<not> possible [Reports [\<lparr>target = 1, isIntersecting = True\<rparr>]] (initScrollAnimations True two_cards)"
proof -
  have len: "length two_cards = 2"
    by (simp add: two_cards_def)
  have plain: "\<not> classList_contains ''animated'' (el_classes (two_cards ! 0))"
    "\<not> classList_contains ''animated'' (el_classes (two_cards ! 1))"
    by (simp_all add: two_cards_def classList_contains_def)
  have has: "is_animated (initScrollAnimations True two_cards) 0"
    "is_animated (initScrollAnimations True two_cards) 1"
    by (simp_all add: reduced_init len)
  have never: "\<not> possible [Reports [\<lparr>target = 0, isIntersecting = True\<rparr>]] (initScrollAnimations True two_cards)"
    "\<not> possible [Reports [\<lparr>target = 1, isIntersecting = True\<rparr>]] (initScrollAnimations True two_cards)"
    by (simp_all add: reduced_init)
  show ?thesis
    by (intro conjI plain has two_cards_reduced reduced_init never)
qed

end
